theory Spec2Isabelle
  imports Complex_Main
begin

section \<open>Types of the surrounding library\<close>

text \<open>
  \<^verbatim>\<open>Real\<close>, \<^verbatim>\<open>Rate\<close>, \<^verbatim>\<open>Time\<close>, \<^verbatim>\<open>Volatility\<close>, \<^verbatim>\<open>DiscountFactor\<close> and \<^verbatim>\<open>Spread\<close> are all
  \<^verbatim>\<open>double\<close> in the library. They are read here as mathematical reals: in the pass
  \<open>performCalculations\<close> below every operation is exact, and infinities and NaN are outside the
  model. Rounding is written out in a second embedding of the pass,
  \<open>performCalculations_double\<close>, for the claim that depends on it. A \<^verbatim>\<open>Date\<close> is its serial
  number.
\<close>

type_synonym Real = real
type_synonym Rate = real
type_synonym Time = real
type_synonym Volatility = real
type_synonym DiscountFactor = real
type_synonym Date = int

text \<open>
  Modelled from the spec: the class \<^verbatim>\<open>Period\<close> (ql/time/period.hpp), with its \<^verbatim>\<open>operator+\<close>
  and its comparisons, is not among the sources. The spec writes periods as whole numbers of
  months or years, adds them, and compares 27M with 2Y = 24M; so a period is its length in
  months, an unbounded integer, \<^verbatim>\<open>+\<close> adds the lengths and \<^verbatim>\<open><=\<close> compares them.
\<close>

type_synonym Period = int

definition Months :: "int \<Rightarrow> Period" where
  "Months n = n"

definition Years :: "int \<Rightarrow> Period" where
  "Years n = 12 * n"

datatype CapFloorType = Cap | Floor

datatype OptionType = Put | Call

text \<open>
  A cap/floor instrument as \<^verbatim>\<open>MakeCapFloor(type, tenor, index, strike, 0*Days, engine)\<close>
  builds it: the stripper always passes its own index and a zero forward start, and the engine
  is a \<^verbatim>\<open>BlackCapFloorEngine(vol, dc)\<close> on the surface's day counter; so an instrument is
  determined by its type, its tenor, its strike and the flat volatility of its engine.
\<close>

record CapFloor =
  cf_type :: CapFloorType
  cf_tenor :: Period
  cf_strike :: Rate
  cf_vol :: Volatility

text \<open>What the stripper reads of the surface: its option tenors, its strikes, its volatility
  (queried with extrapolation allowed), its reference date and its day counter.\<close>

record CapFloorTermVolSurface =
  optionTenors :: "Period list"
  strikes :: "Rate list"
  volatility :: "Period \<Rightarrow> Rate \<Rightarrow> Volatility"
  referenceDate :: Date
  yearFraction :: "Date \<Rightarrow> Date \<Rightarrow> Time"

record IborIndex =
  tenor :: Period
  forecastFixing :: "Date \<Rightarrow> Rate"

text \<open>
  The pricing code the pass calls and that is not part of this file: the instrument's
  \<^verbatim>\<open>NPV()\<close>, \<^verbatim>\<open>lastFixingDate()\<close> and \<^verbatim>\<open>discountCurve()->discount(d)\<close>, and
  \<^verbatim>\<open>blackFormulaImpliedStdDev(type, strike, forward, price, annuity, guess)\<close>, which either
  returns a standard deviation or throws; a thrown exception is \<open>Inl\<close> of its message. The
  solver's call is the only one the pass guards with \<^verbatim>\<open>try\<close>; the other calls are taken to
  return.
\<close>

record Pricing =
  NPV :: "CapFloor \<Rightarrow> Real"
  lastFixingDate :: "CapFloor \<Rightarrow> Date"
  discount :: "CapFloor \<Rightarrow> Date \<Rightarrow> DiscountFactor"
  blackFormulaImpliedStdDev ::
    "OptionType \<Rightarrow> Rate \<Rightarrow> Rate \<Rightarrow> Real \<Rightarrow> Real \<Rightarrow> Real \<Rightarrow> string + Real"

section \<open>The stripper's data\<close>

type_synonym Matrix = "Real list list"

text \<open>\<^verbatim>\<open>Matrix(rows, columns, value)\<close>; \<^verbatim>\<open>Matrix(rows, columns)\<close> leaves its cells
  uninitialised, and is read here as filled with zeros (no cell is read before the pass
  writes it, the standard deviations apart, which are filled explicitly).\<close>

definition Matrix_fill :: "nat \<Rightarrow> nat \<Rightarrow> Real \<Rightarrow> Matrix" where
  "Matrix_fill rows columns v = replicate rows (replicate columns v)"

definition Matrix_new :: "nat \<Rightarrow> nat \<Rightarrow> Matrix" where
  "Matrix_new rows columns = Matrix_fill rows columns 0"

text \<open>The assignment \<^verbatim>\<open>m[i][j] = v\<close>; the read \<^verbatim>\<open>m[i][j]\<close> is \<open>m ! i ! j\<close>.\<close>

definition put :: "'a list list \<Rightarrow> nat \<Rightarrow> nat \<Rightarrow> 'a \<Rightarrow> 'a list list" where
  "put m i j v = m[i := (m ! i)[j := v]]"

text \<open>\<^verbatim>\<open>std::vector::resize(n)\<close> on a vector of shared pointers: new entries are null.\<close>

definition resize :: "'a option list \<Rightarrow> nat \<Rightarrow> 'a option list" where
  "resize xs n = take n xs @ replicate (n - length xs) None"

text \<open>The members that \<^verbatim>\<open>performCalculations() const\<close> assigns (the mutable ones).\<close>

record Grids =
  capfloorPrices :: Matrix
  optionletPrices :: Matrix
  capfloorVols :: Matrix
  optionletVols :: Matrix
  optionletStDevs :: Matrix
  atmOptionletRate :: "Rate list"
  optionletDates :: "Date list"
  optionletTimes :: "Time list"
  optionletAccrualPeriods :: "Time list"
  capfloors :: "CapFloor option list list"

record OptionletStripper =
  surface :: CapFloorTermVolSurface
  index :: IborIndex
  nStrikes :: nat
  switchStrikes :: "Rate list"
  optionletTenors :: "Period list"
  capfloorLengths :: "Period list"
  nOptionletTenors :: nat
  grids :: Grids

section \<open>Construction\<close>

text \<open>The two \<^verbatim>\<open>QL_REQUIRE\<close>s of the constructor. \<open>EmptyOptionTenors\<close> stands for
  \<^verbatim>\<open>surface->optionTenors().back()\<close> on an empty vector, which is undefined in C++.\<close>

datatype error = EmptyOptionTenors | TooShortSurface | SwitchStrikesMismatch

text \<open>
  The \<^verbatim>\<open>while\<close> loop of the constructor on the pair
  (\<^verbatim>\<open>optionletTenors_\<close>, \<^verbatim>\<open>capfloorLengths_\<close>). It does not return for every input
  (a zero or negative index tenor never reaches the maximum), so its result is an option and
  \<open>None\<close> is the loop that never ends.
\<close>

partial_function (option) tenor_loop ::
  "Period \<Rightarrow> Period \<Rightarrow> Period list \<times> Period list \<Rightarrow> (Period list \<times> Period list) option" where
  "tenor_loop indexTenor maxCapFloorTenor s =
     (if last (snd s) + indexTenor \<le> maxCapFloorTenor
      then tenor_loop indexTenor maxCapFloorTenor
             (fst s @ [last (fst s) + indexTenor],
              snd s @ [last (fst s @ [last (fst s) + indexTenor]) + indexTenor])
      else Some s)"

definition normalizeSwitchStrikes :: "nat \<Rightarrow> Rate list \<Rightarrow> Rate list" where
  "normalizeSwitchStrikes n given =
     (let s1 = (if length given = 1 then replicate n (given ! 0) else given);
          s2 = (if given = [] then replicate n (4 / 100) else s1)
      in s2)"

definition initialGrids :: "nat \<Rightarrow> nat \<Rightarrow> Grids" where
  "initialGrids n m =
     \<lparr> capfloorPrices = Matrix_new n m,
       optionletPrices = Matrix_new n m,
       capfloorVols = Matrix_new n m,
       optionletVols = Matrix_new n m,
       optionletStDevs = Matrix_fill n m (14 / 100),
       atmOptionletRate = replicate n 0,
       optionletDates = replicate n 0,
       optionletTimes = replicate n 0,
       optionletAccrualPeriods = replicate n 0,
       capfloors = replicate n [] \<rparr>"

definition newOptionletStripper ::
  "CapFloorTermVolSurface \<Rightarrow> IborIndex \<Rightarrow> Rate list \<Rightarrow> (error + OptionletStripper) option" where
  "newOptionletStripper surf idx given =
     (if optionTenors surf = [] then Some (Inl EmptyOptionTenors)
      else
        let indexTenor = tenor idx;
            maxCapFloorTenor = last (optionTenors surf);
            tenors0 = [indexTenor];
            lengths0 = [last tenors0 + indexTenor]
        in if \<not> (maxCapFloorTenor \<ge> last lengths0) then Some (Inl TooShortSurface)
           else
             (case tenor_loop indexTenor maxCapFloorTenor (tenors0, lengths0) of
                None \<Rightarrow> None
              | Some (tenors, lengths) \<Rightarrow>
                  let n = length tenors;
                      m = length (strikes surf);
                      ss = normalizeSwitchStrikes n given
                  in if \<not> (n = length ss) then Some (Inl SwitchStrikesMismatch)
                     else Some (Inr \<lparr> surface = surf, index = idx, nStrikes = m,
                                      switchStrikes = ss, optionletTenors = tenors,
                                      capfloorLengths = lengths, nOptionletTenors = n,
                                      grids = initialGrids n m \<rparr>)))"

section \<open>The recomputation pass\<close>

text \<open>What \<^verbatim>\<open>QL_FAIL("could not bootstrap the optionlet: ...")\<close> reports: date, type, strike,
  atm rate, price, annuity, and the message of the exception it caught.\<close>

record failure =
  f_date :: Date
  f_type :: OptionType
  f_strike :: Rate
  f_atm :: Rate
  f_price :: Real
  f_annuity :: Real
  f_message :: string

text \<open>The body of the first loop, for period \<open>i\<close>.\<close>

definition period_step :: "Pricing \<Rightarrow> OptionletStripper \<Rightarrow> nat \<Rightarrow> Grids \<Rightarrow> Grids" where
  "period_step env self i g =
     (let temp = \<lparr> cf_type = Cap, cf_tenor = capfloorLengths self ! i,
                   cf_strike = 4 / 100, cf_vol = 20 / 100 \<rparr>;
          g1 = g\<lparr> optionletDates := (optionletDates g)[i := lastFixingDate env temp] \<rparr>;
          g2 = g1\<lparr> optionletAccrualPeriods := (optionletAccrualPeriods g1)[i := 1 / 2] \<rparr>;
          g3 = g2\<lparr> optionletTimes := (optionletTimes g2)
                  [i := yearFraction (surface self) (referenceDate (surface self))
                          (optionletDates g2 ! i)] \<rparr>;
          g4 = g3\<lparr> atmOptionletRate := (atmOptionletRate g3)
                  [i := forecastFixing (index self) (optionletDates g3 ! i)] \<rparr>
      in g4\<lparr> capfloors := (capfloors g4)[i := resize (capfloors g4 ! i) (nStrikes self)] \<rparr>)"

function period_loop :: "Pricing \<Rightarrow> OptionletStripper \<Rightarrow> nat \<Rightarrow> Grids \<Rightarrow> Grids" where
  "period_loop env self i g =
     (if i < nOptionletTenors self
      then period_loop env self (Suc i) (period_step env self i g)
      else g)"
  by pat_completeness auto
termination
  by (relation "measure (\<lambda>(env, self, i, g). nOptionletTenors self - i)") auto

declare period_loop.simps [simp del]

text \<open>
  The body of the inner loop, for strike \<open>j\<close> and period \<open>i\<close>. It returns the new
  \<^verbatim>\<open>previousCapFloorPrice\<close> with the grids, or the failure together with the grids as the
  throw leaves them (the members are assigned in place).
\<close>

definition strip_cell ::
  "Pricing \<Rightarrow> OptionletStripper \<Rightarrow> nat \<Rightarrow> nat \<Rightarrow> Real \<Rightarrow> Grids \<Rightarrow> (failure \<times> Grids) + (Real \<times> Grids)" where
  "strip_cell env self j i previousCapFloorPrice g =
     (let strikes = strikes (surface self);
          capFloorType = (if strikes ! j < switchStrikes self ! i then Floor else Cap);
          optionletType = (if capFloorType = Floor then Put else Call);
          g1 = g\<lparr> capfloorVols := put (capfloorVols g) i j
                  (volatility (surface self) (capfloorLengths self ! i) (strikes ! j)) \<rparr>;
          g2 = g1\<lparr> capfloors := put (capfloors g1) i j
                  (Some \<lparr> cf_type = capFloorType, cf_tenor = capfloorLengths self ! i,
                          cf_strike = strikes ! j, cf_vol = capfloorVols g1 ! i ! j \<rparr>) \<rparr>;
          g3 = g2\<lparr> capfloorPrices := put (capfloorPrices g2) i j
                  (NPV env (the (capfloors g2 ! i ! j))) \<rparr>;
          g4 = g3\<lparr> optionletPrices := put (optionletPrices g3) i j
                  (capfloorPrices g3 ! i ! j - previousCapFloorPrice) \<rparr>;
          previousCapFloorPrice' = capfloorPrices g4 ! i ! j;
          d = discount env (the (capfloors g4 ! i ! j)) (optionletDates g4 ! i);
          optionletAnnuity = optionletAccrualPeriods g4 ! i * d
      in case blackFormulaImpliedStdDev env optionletType (strikes ! j)
                (atmOptionletRate g4 ! i) (optionletPrices g4 ! i ! j) optionletAnnuity
                (optionletStDevs g4 ! i ! j) of
           Inl what \<Rightarrow>
             Inl (\<lparr> f_date = optionletDates g4 ! i, f_type = optionletType,
                    f_strike = strikes ! j, f_atm = atmOptionletRate g4 ! i,
                    f_price = optionletPrices g4 ! i ! j, f_annuity = optionletAnnuity,
                    f_message = what \<rparr>, g4)
         | Inr stdDev \<Rightarrow>
             (let g5 = g4\<lparr> optionletStDevs := put (optionletStDevs g4) i j stdDev \<rparr>;
                  g6 = g5\<lparr> optionletVols := put (optionletVols g5) i j
                          (optionletStDevs g5 ! i ! j / sqrt (optionletTimes g5 ! i)) \<rparr>
              in Inr (previousCapFloorPrice', g6)))"

function inner_loop ::
  "Pricing \<Rightarrow> OptionletStripper \<Rightarrow> nat \<Rightarrow> nat \<Rightarrow> Real \<Rightarrow> Grids \<Rightarrow> (failure \<times> Grids) + Grids" where
  "inner_loop env self j i previousCapFloorPrice g =
     (if i < nOptionletTenors self
      then (case strip_cell env self j i previousCapFloorPrice g of
              Inl e \<Rightarrow> Inl e
            | Inr (p, g') \<Rightarrow> inner_loop env self j (Suc i) p g')
      else Inr g)"
  by pat_completeness auto
termination
  by (relation "measure (\<lambda>(env, self, j, i, p, g). nOptionletTenors self - i)") auto

declare inner_loop.simps [simp del]

function outer_loop ::
  "Pricing \<Rightarrow> OptionletStripper \<Rightarrow> nat \<Rightarrow> Grids \<Rightarrow> (failure \<times> Grids) + Grids" where
  "outer_loop env self j g =
     (if j < nStrikes self
      then (case inner_loop env self j 0 0 g of
              Inl e \<Rightarrow> Inl e
            | Inr g' \<Rightarrow> outer_loop env self (Suc j) g')
      else Inr g)"
  by pat_completeness auto
termination
  by (relation "measure (\<lambda>(env, self, j, g). nStrikes self - j)") auto

declare outer_loop.simps [simp del]

text \<open>
  \<^verbatim>\<open>performCalculations\<close>: the first loop, then the two nested loops. The local
  \<^verbatim>\<open>strikeRange\<close> (last strike minus first strike) is computed and never used, and is left
  out. A pass that throws leaves the object with the grids as they were at the throw.
\<close>

definition performCalculations ::
  "Pricing \<Rightarrow> OptionletStripper \<Rightarrow> (failure \<times> OptionletStripper) + OptionletStripper" where
  "performCalculations env self =
     (case outer_loop env self 0 (period_loop env self 0 (grids self)) of
        Inl (f, g) \<Rightarrow> Inl (f, self\<lparr> grids := g \<rparr>)
      | Inr g \<Rightarrow> Inr (self\<lparr> grids := g \<rparr>))"

section \<open>Well-formed objects\<close>

definition is_matrix :: "nat \<Rightarrow> nat \<Rightarrow> 'a list list \<Rightarrow> bool" where
  "is_matrix n m M = (length M = n \<and> list_all (\<lambda>row. length row = m) M)"

text \<open>The dimensions the constructor establishes and every pass keeps: all five matrices are
  \<open>n \<times> m\<close>, the per-period vectors and the instrument rows have length \<open>n\<close>.\<close>

definition grid_shape :: "nat \<Rightarrow> nat \<Rightarrow> Grids \<Rightarrow> bool" where
  "grid_shape n m g =
     (is_matrix n m (capfloorPrices g) \<and> is_matrix n m (optionletPrices g) \<and>
      is_matrix n m (capfloorVols g) \<and> is_matrix n m (optionletVols g) \<and>
      is_matrix n m (optionletStDevs g) \<and>
      length (atmOptionletRate g) = n \<and> length (optionletDates g) = n \<and>
      length (optionletTimes g) = n \<and> length (optionletAccrualPeriods g) = n \<and>
      length (capfloors g) = n)"

definition dims_ok :: "OptionletStripper \<Rightarrow> bool" where
  "dims_ok self =
     (length (strikes (surface self)) = nStrikes self \<and>
      length (switchStrikes self) = nOptionletTenors self \<and>
      length (capfloorLengths self) = nOptionletTenors self \<and>
      grid_shape (nOptionletTenors self) (nStrikes self) (grids self))"

section \<open>What a pass computes, cell by cell\<close>

text \<open>The instrument the pass builds for period \<open>i\<close> and strike \<open>j\<close>, and the price of the
  instrument one period shorter at the same strike (zero for the first period).\<close>

definition cellInstrument :: "OptionletStripper \<Rightarrow> nat \<Rightarrow> nat \<Rightarrow> CapFloor" where
  "cellInstrument self i j =
     \<lparr> cf_type = (if strikes (surface self) ! j < switchStrikes self ! i then Floor else Cap),
       cf_tenor = capfloorLengths self ! i,
       cf_strike = strikes (surface self) ! j,
       cf_vol = volatility (surface self) (capfloorLengths self ! i) (strikes (surface self) ! j) \<rparr>"

definition cellPrice :: "Pricing \<Rightarrow> OptionletStripper \<Rightarrow> nat \<Rightarrow> nat \<Rightarrow> Real" where
  "cellPrice env self i j = NPV env (cellInstrument self i j)"

definition previousPrice :: "Pricing \<Rightarrow> OptionletStripper \<Rightarrow> nat \<Rightarrow> nat \<Rightarrow> Real" where
  "previousPrice env self i j = (if i = 0 then 0 else cellPrice env self (i - 1) j)"

definition cellAnnuity :: "Pricing \<Rightarrow> OptionletStripper \<Rightarrow> Grids \<Rightarrow> nat \<Rightarrow> nat \<Rightarrow> Real" where
  "cellAnnuity env self g i j =
     optionletAccrualPeriods g ! i * discount env (cellInstrument self i j) (optionletDates g ! i)"

text \<open>The call of the solver for the cell, on the per-period vectors of \<open>g\<close> and with the
  standard deviation that \<open>g\<close> holds in the cell as the guess.\<close>

definition cellSolve ::
  "Pricing \<Rightarrow> OptionletStripper \<Rightarrow> Grids \<Rightarrow> nat \<Rightarrow> nat \<Rightarrow> string + Real" where
  "cellSolve env self g i j =
     blackFormulaImpliedStdDev env
       (if strikes (surface self) ! j < switchStrikes self ! i then Put else Call)
       (strikes (surface self) ! j)
       (atmOptionletRate g ! i)
       (cellPrice env self i j - previousPrice env self i j)
       (cellAnnuity env self g i j)
       (optionletStDevs g ! i ! j)"

text \<open>The six matrix entries of a cell, and the four per-period vectors.\<close>

definition cell ::
  "Grids \<Rightarrow> nat \<Rightarrow> nat \<Rightarrow> Real \<times> CapFloor option \<times> Real \<times> Real \<times> Real \<times> Real" where
  "cell g i j =
     (capfloorVols g ! i ! j, capfloors g ! i ! j, capfloorPrices g ! i ! j,
      optionletPrices g ! i ! j, optionletStDevs g ! i ! j, optionletVols g ! i ! j)"

definition vecs :: "Grids \<Rightarrow> Rate list \<times> Date list \<times> Time list \<times> Time list" where
  "vecs g = (atmOptionletRate g, optionletDates g, optionletTimes g, optionletAccrualPeriods g)"

text \<open>The cell after its inversion succeeded with \<open>sd\<close>, and after it failed.\<close>

definition strippedCell ::
  "Pricing \<Rightarrow> OptionletStripper \<Rightarrow> Grids \<Rightarrow> nat \<Rightarrow> nat \<Rightarrow> Real
     \<Rightarrow> Real \<times> CapFloor option \<times> Real \<times> Real \<times> Real \<times> Real" where
  "strippedCell env self g i j sd =
     (cf_vol (cellInstrument self i j), Some (cellInstrument self i j), cellPrice env self i j,
      cellPrice env self i j - previousPrice env self i j, sd, sd / sqrt (optionletTimes g ! i))"

definition failedCell ::
  "Pricing \<Rightarrow> OptionletStripper \<Rightarrow> Grids \<Rightarrow> nat \<Rightarrow> nat
     \<Rightarrow> Real \<times> CapFloor option \<times> Real \<times> Real \<times> Real \<times> Real" where
  "failedCell env self g i j =
     (cf_vol (cellInstrument self i j), Some (cellInstrument self i j), cellPrice env self i j,
      cellPrice env self i j - previousPrice env self i j,
      optionletStDevs g ! i ! j, optionletVols g ! i ! j)"

definition cellFailure ::
  "Pricing \<Rightarrow> OptionletStripper \<Rightarrow> Grids \<Rightarrow> nat \<Rightarrow> nat \<Rightarrow> string \<Rightarrow> failure" where
  "cellFailure env self g i j what =
     \<lparr> f_date = optionletDates g ! i,
       f_type = (if strikes (surface self) ! j < switchStrikes self ! i then Put else Call),
       f_strike = strikes (surface self) ! j,
       f_atm = atmOptionletRate g ! i,
       f_price = cellPrice env self i j - previousPrice env self i j,
       f_annuity = cellAnnuity env self g i j,
       f_message = what \<rparr>"

definition stripped :: "Pricing \<Rightarrow> OptionletStripper \<Rightarrow> Grids \<Rightarrow> Grids \<Rightarrow> nat \<Rightarrow> nat \<Rightarrow> bool" where
  "stripped env self g g' i j =
     (case cellSolve env self g i j of
        Inl what \<Rightarrow> False
      | Inr sd \<Rightarrow> cell g' i j = strippedCell env self g i j sd)"

definition failed ::
  "Pricing \<Rightarrow> OptionletStripper \<Rightarrow> Grids \<Rightarrow> Grids \<Rightarrow> failure \<Rightarrow> nat \<Rightarrow> nat \<Rightarrow> bool" where
  "failed env self g g' f i j =
     (case cellSolve env self g i j of
        Inl what \<Rightarrow> f = cellFailure env self g i j what \<and> cell g' i j = failedCell env self g i j
      | Inr sd \<Rightarrow> False)"

text \<open>The grids after the cell's instrument is priced, and after its inversion succeeded.\<close>

definition pricedGrids :: "Pricing \<Rightarrow> OptionletStripper \<Rightarrow> Grids \<Rightarrow> nat \<Rightarrow> nat \<Rightarrow> Grids" where
  "pricedGrids env self g i j =
     g\<lparr> capfloorVols := put (capfloorVols g) i j (cf_vol (cellInstrument self i j)),
        capfloors := put (capfloors g) i j (Some (cellInstrument self i j)),
        capfloorPrices := put (capfloorPrices g) i j (cellPrice env self i j),
        optionletPrices := put (optionletPrices g) i j
          (cellPrice env self i j - previousPrice env self i j) \<rparr>"

definition invertedGrids ::
  "Pricing \<Rightarrow> OptionletStripper \<Rightarrow> Grids \<Rightarrow> nat \<Rightarrow> nat \<Rightarrow> Real \<Rightarrow> Grids" where
  "invertedGrids env self g i j sd =
     (pricedGrids env self g i j)
       \<lparr> optionletStDevs := put (optionletStDevs g) i j sd,
         optionletVols := put (optionletVols g) i j (sd / sqrt (optionletTimes g ! i)) \<rparr>"

text \<open>The grids between the two loops of a pass: every instrument row has its \<open>m\<close> slots.\<close>

definition ready :: "nat \<Rightarrow> nat \<Rightarrow> Grids \<Rightarrow> bool" where
  "ready n m g = (grid_shape n m g \<and> is_matrix n m (capfloors g))"

text \<open>The order in which the pass visits the cells: strike by strike, period by period.\<close>

definition visitedBefore :: "nat \<Rightarrow> nat \<Rightarrow> nat \<Rightarrow> nat \<Rightarrow> bool" where
  "visitedBefore i' j' i j = (j' < j \<or> (j' = j \<and> i' < i))"

text \<open>What the first loop of a pass writes for period \<open>i\<close>: the last fixing date of a cap of
  the period's cumulative length (strike 0.04, engine volatility 0.20), the accrual period,
  the time to that date, the forecast fixing on it, and an instrument row of one slot per
  strike.\<close>

definition periodDate :: "Pricing \<Rightarrow> OptionletStripper \<Rightarrow> nat \<Rightarrow> Date" where
  "periodDate env self i =
     lastFixingDate env \<lparr> cf_type = Cap, cf_tenor = capfloorLengths self ! i,
                           cf_strike = 4 / 100, cf_vol = 20 / 100 \<rparr>"

definition periodSet :: "Pricing \<Rightarrow> OptionletStripper \<Rightarrow> Grids \<Rightarrow> nat \<Rightarrow> bool" where
  "periodSet env self g i =
     (optionletDates g ! i = periodDate env self i \<and>
      optionletAccrualPeriods g ! i = 1 / 2 \<and>
      optionletTimes g ! i =
        yearFraction (surface self) (referenceDate (surface self)) (periodDate env self i) \<and>
      atmOptionletRate g ! i = forecastFixing (index self) (periodDate env self i) \<and>
      length (capfloors g ! i) = nStrikes self)"

text \<open>The five matrices of reals.\<close>

definition mats :: "Grids \<Rightarrow> Matrix \<times> Matrix \<times> Matrix \<times> Matrix \<times> Matrix" where
  "mats g =
     (capfloorPrices g, optionletPrices g, capfloorVols g, optionletVols g, optionletStDevs g)"

text \<open>The call of the solver of lines 125 to 131 for the cell \<open>(i, j)\<close>, read off the grids
  \<open>g\<close>, with the guess given apart (the pass overwrites the cell it takes the guess from).\<close>

definition solverCall ::
  "Pricing \<Rightarrow> OptionletStripper \<Rightarrow> Grids \<Rightarrow> nat \<Rightarrow> nat \<Rightarrow> Real \<Rightarrow> string + Real" where
  "solverCall env self g i j guess =
     blackFormulaImpliedStdDev env
       (if strikes (surface self) ! j < switchStrikes self ! i then Put else Call)
       (strikes (surface self) ! j)
       (atmOptionletRate g ! i)
       (optionletPrices g ! i ! j)
       (optionletAccrualPeriods g ! i *
          discount env (the (capfloors g ! i ! j)) (optionletDates g ! i))
       guess"

section \<open>The pass in double precision\<close>

text \<open>
  The library's \<^verbatim>\<open>typedef double Real\<close> (ql/types.hpp) is not among the sources; every
  \<^verbatim>\<open>-\<close>, \<^verbatim>\<open>*\<close>, \<^verbatim>\<open>/\<close> and \<^verbatim>\<open>std::sqrt\<close> of the pass is an operation on doubles, that is, the
  exact result rounded to the nearest IEEE 754 binary64 number, ties to the even significand.
  \<open>binary64\<close> is that rounding on the normal range: 53 significant bits and an unbounded
  exponent, so overflow, subnormal numbers, infinities and NaN are left out.
\<close>

definition pow2 :: "int \<Rightarrow> real" where
  "pow2 k = (if 0 \<le> k then 2 ^ nat k else 1 / 2 ^ nat (- k))"

definition round_to_even :: "real \<Rightarrow> int" where
  "round_to_even r =
     (let f = \<lfloor>r\<rfloor>
      in if r - of_int f < 1 / 2 then f
         else if 1 / 2 < r - of_int f then f + 1
         else if even f then f else f + 1)"

definition binary64 :: "real \<Rightarrow> real" where
  "binary64 x =
     (if x = 0 then 0
      else let e = \<lfloor>log 2 \<bar>x\<bar>\<rfloor>
           in of_int (round_to_even (x / pow2 (e - 52))) * pow2 (e - 52))"





definition strip_cell_double ::
  "Pricing \<Rightarrow> OptionletStripper \<Rightarrow> nat \<Rightarrow> nat \<Rightarrow> Real \<Rightarrow> Grids \<Rightarrow> (failure \<times> Grids) + (Real \<times> Grids)" where
  "strip_cell_double env self j i previousCapFloorPrice g =
     (let strikes = strikes (surface self);
          capFloorType = (if strikes ! j < switchStrikes self ! i then Floor else Cap);
          optionletType = (if capFloorType = Floor then Put else Call);
          g1 = g\<lparr> capfloorVols := put (capfloorVols g) i j
                  (volatility (surface self) (capfloorLengths self ! i) (strikes ! j)) \<rparr>;
          g2 = g1\<lparr> capfloors := put (capfloors g1) i j
                  (Some \<lparr> cf_type = capFloorType, cf_tenor = capfloorLengths self ! i,
                          cf_strike = strikes ! j, cf_vol = capfloorVols g1 ! i ! j \<rparr>) \<rparr>;
          g3 = g2\<lparr> capfloorPrices := put (capfloorPrices g2) i j
                  (NPV env (the (capfloors g2 ! i ! j))) \<rparr>;
          g4 = g3\<lparr> optionletPrices := put (optionletPrices g3) i j
                  (binary64 (capfloorPrices g3 ! i ! j - previousCapFloorPrice)) \<rparr>;
          previousCapFloorPrice' = capfloorPrices g4 ! i ! j;
          d = discount env (the (capfloors g4 ! i ! j)) (optionletDates g4 ! i);
          optionletAnnuity = binary64 (optionletAccrualPeriods g4 ! i * d)
      in case blackFormulaImpliedStdDev env optionletType (strikes ! j)
                (atmOptionletRate g4 ! i) (optionletPrices g4 ! i ! j) optionletAnnuity
                (optionletStDevs g4 ! i ! j) of
           Inl what \<Rightarrow>
             Inl (\<lparr> f_date = optionletDates g4 ! i, f_type = optionletType,
                    f_strike = strikes ! j, f_atm = atmOptionletRate g4 ! i,
                    f_price = optionletPrices g4 ! i ! j, f_annuity = optionletAnnuity,
                    f_message = what \<rparr>, g4)
         | Inr stdDev \<Rightarrow>
             (let g5 = g4\<lparr> optionletStDevs := put (optionletStDevs g4) i j stdDev \<rparr>;
                  g6 = g5\<lparr> optionletVols := put (optionletVols g5) i j
                          (binary64 (optionletStDevs g5 ! i ! j /
                                     binary64 (sqrt (optionletTimes g5 ! i)))) \<rparr>
              in Inr (previousCapFloorPrice', g6)))"






section \<open>Example data\<close>

text \<open>A surface quoted out to two years on two strikes, and a three-month index.\<close>

definition ex_surface :: CapFloorTermVolSurface where
  "ex_surface =
     \<lparr> optionTenors = [Years 1, Years 2], strikes = [3 / 100, 5 / 100],
       volatility = (\<lambda>T K. 1 / 5), referenceDate = 0,
       yearFraction = (\<lambda>d1 d2. real_of_int (d2 - d1) / 12) \<rparr>"

definition ex_index :: IborIndex where
  "ex_index = \<lparr> tenor = Months 3, forecastFixing = (\<lambda>d. 4 / 100) \<rparr>"

definition ex_stripper :: OptionletStripper where
  "ex_stripper =
     \<lparr> surface = ex_surface, index = ex_index, nStrikes = 2,
       switchStrikes = replicate 7 (4 / 100),
       optionletTenors = [3, 6, 9, 12, 15, 18, 21],
       capfloorLengths = [6, 9, 12, 15, 18, 21, 24],
       nOptionletTenors = 7,
       grids = initialGrids 7 2 \<rparr>"

text \<open>A surface too short for a three-month index: its longest tenor is five months.\<close>

definition short_surface :: CapFloorTermVolSurface where
  "short_surface = ex_surface\<lparr> optionTenors := [Months 5] \<rparr>"

text \<open>A surface quoted to nine months: with the three-month index it gives two periods, of
  cumulative lengths six and nine months, on two strikes, one on each side of the default
  switch strike.\<close>

definition small_surface :: CapFloorTermVolSurface where
  "small_surface = ex_surface\<lparr> optionTenors := [Months 9] \<rparr>"

definition small_stripper :: OptionletStripper where
  "small_stripper =
     \<lparr> surface = small_surface, index = ex_index, nStrikes = 2,
       switchStrikes = [4 / 100, 4 / 100],
       optionletTenors = [3, 6],
       capfloorLengths = [6, 9],
       nOptionletTenors = 2,
       grids = initialGrids 2 2 \<rparr>"

text \<open>Pricing code for the examples: an instrument is worth one hundredth of its tenor in
  months, its last fixing is three months before its end, nothing is discounted, and the solver
  answers for positive prices only, moving its guess by price over annuity.\<close>

definition ex_pricing :: Pricing where
  "ex_pricing =
     \<lparr> NPV = (\<lambda>cf. real_of_int (cf_tenor cf) / 100),
       lastFixingDate = (\<lambda>cf. cf_tenor cf - 3),
       discount = (\<lambda>cf d. 1),
       blackFormulaImpliedStdDev =
         (\<lambda>T K F P A G. if 0 < P then Inr (G + P / A) else Inl ''no solution'') \<rparr>"

text \<open>The same, but the nine-month floor is worth nothing: its optionlet price is negative
  and the solver fails at the second period of the first strike.\<close>

definition bad_pricing :: Pricing where
  "bad_pricing =
     ex_pricing\<lparr> NPV := (\<lambda>cf. if cf_tenor cf = 9 \<and> cf_type cf = Floor then 0
                              else real_of_int (cf_tenor cf) / 100) \<rparr>"

text \<open>The stripper after a pass with the example pricing, and after the pass that fails.\<close>

definition small_result :: OptionletStripper where
  "small_result =
     small_stripper\<lparr> grids :=
       \<lparr> capfloorPrices = [[6 / 100, 6 / 100], [9 / 100, 9 / 100]],
         optionletPrices = [[6 / 100, 6 / 100], [3 / 100, 3 / 100]],
         capfloorVols = [[1 / 5, 1 / 5], [1 / 5, 1 / 5]],
         optionletVols = [[(26 / 100) / sqrt (1 / 4), (26 / 100) / sqrt (1 / 4)],
                          [(20 / 100) / sqrt (1 / 2), (20 / 100) / sqrt (1 / 2)]],
         optionletStDevs = [[26 / 100, 26 / 100], [20 / 100, 20 / 100]],
         atmOptionletRate = [4 / 100, 4 / 100],
         optionletDates = [3, 6],
         optionletTimes = [1 / 4, 1 / 2],
         optionletAccrualPeriods = [1 / 2, 1 / 2],
         capfloors =
           [[Some \<lparr> cf_type = Floor, cf_tenor = 6, cf_strike = 3 / 100, cf_vol = 1 / 5 \<rparr>,
             Some \<lparr> cf_type = Cap, cf_tenor = 6, cf_strike = 5 / 100, cf_vol = 1 / 5 \<rparr>],
            [Some \<lparr> cf_type = Floor, cf_tenor = 9, cf_strike = 3 / 100, cf_vol = 1 / 5 \<rparr>,
             Some \<lparr> cf_type = Cap, cf_tenor = 9, cf_strike = 5 / 100, cf_vol = 1 / 5 \<rparr>]] \<rparr> \<rparr>"

definition bad_failure :: failure where
  "bad_failure =
     \<lparr> f_date = 6, f_type = Put, f_strike = 3 / 100, f_atm = 4 / 100,
       f_price = - (6 / 100), f_annuity = 1 / 2, f_message = ''no solution'' \<rparr>"

definition bad_result :: OptionletStripper where
  "bad_result =
     small_stripper\<lparr> grids :=
       \<lparr> capfloorPrices = [[6 / 100, 0], [0, 0]],
         optionletPrices = [[6 / 100, 0], [- (6 / 100), 0]],
         capfloorVols = [[1 / 5, 0], [1 / 5, 0]],
         optionletVols = [[(26 / 100) / sqrt (1 / 4), 0], [0, 0]],
         optionletStDevs = [[26 / 100, 14 / 100], [14 / 100, 14 / 100]],
         atmOptionletRate = [4 / 100, 4 / 100],
         optionletDates = [3, 6],
         optionletTimes = [1 / 4, 1 / 2],
         optionletAccrualPeriods = [1 / 2, 1 / 2],
         capfloors =
           [[Some \<lparr> cf_type = Floor, cf_tenor = 6, cf_strike = 3 / 100, cf_vol = 1 / 5 \<rparr>, None],
            [Some \<lparr> cf_type = Floor, cf_tenor = 9, cf_strike = 3 / 100, cf_vol = 1 / 5 \<rparr>, None]]
       \<rparr> \<rparr>"






section \<open>The tenor grid\<close>

text \<open>A loop that returns was run with a positive index tenor: with a zero or negative one
  the last length never passes the maximum.\<close>

lemma tenor_loop_Some_pos:
  assumes "tenor_loop t T s = Some r"
  shows "last (snd s) = last (fst s) + t \<longrightarrow> last (snd s) \<le> T \<longrightarrow> 0 < t"
proof (rule tenor_loop.raw_induct[where P = "\<lambda>t T s r.
         last (snd s) = last (fst s) + t \<longrightarrow> last (snd s) \<le> T \<longrightarrow> 0 < t", OF _ assms])
  fix f :: "Period \<Rightarrow> Period \<Rightarrow> Period list \<times> Period list \<Rightarrow> (Period list \<times> Period list) option"
  fix t T :: Period and s r :: "Period list \<times> Period list"
  assume IH: "\<And>t T s r. f t T s = Some r \<Longrightarrow>
                last (snd s) = last (fst s) + t \<longrightarrow> last (snd s) \<le> T \<longrightarrow> 0 < t"
  assume eq: "(if last (snd s) + t \<le> T
      then f t T (fst s @ [last (fst s) + t], snd s @ [last (fst s @ [last (fst s) + t]) + t])
      else Some s) = Some r"
  show "last (snd s) = last (fst s) + t \<longrightarrow> last (snd s) \<le> T \<longrightarrow> 0 < t"
  proof (cases "last (snd s) + t \<le> T")
    case True
    with eq have "f t T (fst s @ [last (fst s) + t],
              snd s @ [last (fst s @ [last (fst s) + t]) + t]) = Some r" by simp
    from IH[OF this] True show ?thesis by simp
  next
    case False
    then show ?thesis by auto
  qed
qed

lemma tenor_loop_closed:
  "0 < t \<Longrightarrow> last ls = last ts + t \<Longrightarrow> last ls \<le> T \<Longrightarrow> n = nat ((T - last ls) div t) \<Longrightarrow>
   tenor_loop t T (ts, ls) =
     Some (ts @ map (\<lambda>k. last ts + (int k + 1) * t) [0..<n],
           ls @ map (\<lambda>k. last ls + (int k + 1) * t) [0..<n])"
proof (induction n arbitrary: ts ls)
  case 0
  then have "\<not> 0 < (T - last ls) div t" by simp
  with pos_imp_zdiv_pos_iff[OF 0(1), of "T - last ls"] have "\<not> last ls + t \<le> T" by simp
  then show ?case by (subst tenor_loop.simps) simp
next
  case (Suc n)
  let ?ts = "ts @ [last ts + t]"
  let ?ls = "ls @ [last ?ts + t]"
  from Suc.prems have d: "(T - last ls) div t = int n + 1" by linarith
  then have "0 < (T - last ls) div t" by simp
  with pos_imp_zdiv_pos_iff[OF Suc.prems(1), of "T - last ls"] have c: "last ls + t \<le> T" by simp
  have l: "last ?ls = last ls + t" using Suc.prems(2) by simp
  have "(T - last ls - t + t) div t = (T - last ls - t) div t + 1"
    using div_add_self2[of t "T - last ls - t"] Suc.prems(1) by simp
  then have "(T - (last ls + t)) div t = int n" using d by (simp add: algebra_simps)
  then have n: "n = nat ((T - last ?ls) div t)" by (simp only: l)
  have IH: "tenor_loop t T (?ts, ?ls) =
     Some (?ts @ map (\<lambda>k. last ?ts + (int k + 1) * t) [0..<n],
           ?ls @ map (\<lambda>k. last ?ls + (int k + 1) * t) [0..<n])"
    using Suc.IH[of ?ls ?ts] Suc.prems(1) l c n by simp
  have m: "\<And>a. map (\<lambda>k. a + (int k + 1) * t) [0..<Suc n]
       = (a + t) # map (\<lambda>k. (a + t) + (int k + 1) * t) [0..<n]"
    by (simp add: upt_conv_Cons map_Suc_upt[symmetric] algebra_simps del: upt_Suc)
  have step: "tenor_loop t T (ts, ls) = tenor_loop t T (?ts, ?ls)"
    by (subst tenor_loop.simps) (use c in simp)
  show ?case unfolding step IH m using l Suc.prems(2) by simp
qed


lemma tenor_grid:
  assumes "0 < t" "t + t \<le> T"
  shows "tenor_loop t T ([t], [t + t]) =
     Some (map (\<lambda>i. (int i + 1) * t) [0..<nat (T div t) - 1],
           map (\<lambda>i. (int i + 2) * t) [0..<nat (T div t) - 1])"
proof -
  define n where "n = nat ((T - (t + t)) div t)"
  have "(T - (t + t) + t + t) div t = (T - (t + t)) div t + 1 + 1"
    using div_add_self2[of t "T - (t + t) + t"] div_add_self2[of t "T - (t + t)"] assms(1)
    by simp
  then have d: "T div t = (T - (t + t)) div t + 2" by simp
  have "0 \<le> (T - (t + t)) div t" using assms by (simp add: pos_imp_zdiv_nonneg_iff)
  with d have N: "nat (T div t) - 1 = Suc n" by (simp add: n_def)
  have "tenor_loop t T ([t], [t + t]) =
     Some ([t] @ map (\<lambda>k. last [t] + (int k + 1) * t) [0..<n],
           [t + t] @ map (\<lambda>k. last [t + t] + (int k + 1) * t) [0..<n])"
    by (rule tenor_loop_closed) (use assms in \<open>simp_all add: n_def\<close>)
  also have "[t] @ map (\<lambda>k. last [t] + (int k + 1) * t) [0..<n]
     = map (\<lambda>i. (int i + 1) * t) [0..<Suc n]"
    by (simp add: upt_conv_Cons map_Suc_upt[symmetric] algebra_simps del: upt_Suc)
  also have "[t + t] @ map (\<lambda>k. last [t + t] + (int k + 1) * t) [0..<n]
     = map (\<lambda>i. (int i + 2) * t) [0..<Suc n]"
    by (simp add: upt_conv_Cons map_Suc_upt[symmetric] algebra_simps del: upt_Suc)
  finally show ?thesis unfolding N .
qed

lemma new_Inr_pos:
  assumes "newOptionletStripper surf idx given = Some (Inr obj)"
  shows "optionTenors surf \<noteq> []" "tenor idx + tenor idx \<le> last (optionTenors surf)"
    "0 < tenor idx"
proof -
  show ne: "optionTenors surf \<noteq> []"
    using assms by (auto simp: newOptionletStripper_def)
  show le: "tenor idx + tenor idx \<le> last (optionTenors surf)"
    using assms ne by (auto simp: newOptionletStripper_def Let_def split: if_splits)
  from assms ne le obtain r where
    "tenor_loop (tenor idx) (last (optionTenors surf)) ([tenor idx], [tenor idx + tenor idx]) = Some r"
    by (auto simp: newOptionletStripper_def Let_def split: if_splits option.splits)
  from tenor_loop_Some_pos[OF this] le show "0 < tenor idx" by simp
qed

lemma new_eq:
  assumes "optionTenors surf \<noteq> []" "tenor idx + tenor idx \<le> last (optionTenors surf)"
    "0 < tenor idx"
  shows "newOptionletStripper surf idx given =
    (let n = nat (last (optionTenors surf) div tenor idx) - 1;
         ss = normalizeSwitchStrikes n given
     in if n \<noteq> length ss then Some (Inl SwitchStrikesMismatch)
        else Some (Inr \<lparr> surface = surf, index = idx, nStrikes = length (strikes surf),
                 switchStrikes = ss,
                 optionletTenors = map (\<lambda>i. (int i + 1) * tenor idx) [0..<n],
                 capfloorLengths = map (\<lambda>i. (int i + 2) * tenor idx) [0..<n],
                 nOptionletTenors = n,
                 grids = initialGrids n (length (strikes surf)) \<rparr>))"
proof -
  have tg: "tenor_loop (tenor idx) (last (optionTenors surf))
               ([tenor idx], [last [tenor idx] + tenor idx]) =
     Some (map (\<lambda>i. (int i + 1) * tenor idx) [0..<nat (last (optionTenors surf) div tenor idx) - 1],
           map (\<lambda>i. (int i + 2) * tenor idx) [0..<nat (last (optionTenors surf) div tenor idx) - 1])"
    using tenor_grid[OF assms(3,2)] by simp
  have c: "\<not> \<not> last (optionTenors surf) \<ge> last [last [tenor idx] + tenor idx]"
    using assms(2) by simp
  show ?thesis
    unfolding newOptionletStripper_def Let_def if_not_P[OF assms(1)] if_not_P[OF c] tg
    by (simp only: option.case prod.case length_map length_upt diff_zero)
qed

lemma new_Inr_fields:
  assumes "newOptionletStripper surf idx given = Some (Inr obj)"
  defines "n \<equiv> nat (last (optionTenors surf) div tenor idx) - 1"
  shows "nOptionletTenors obj = n"
    "optionletTenors obj = map (\<lambda>i. (int i + 1) * tenor idx) [0..<n]"
    "capfloorLengths obj = map (\<lambda>i. (int i + 2) * tenor idx) [0..<n]"
    "switchStrikes obj = normalizeSwitchStrikes n given"
    "length (switchStrikes obj) = n"
    "grids obj = initialGrids n (length (strikes surf))"
    "nStrikes obj = length (strikes surf)"
    "surface obj = surf" "index obj = idx"
    "2 \<le> last (optionTenors surf) div tenor idx"
proof -
  note p = new_Inr_pos[OF assms(1)]
  from assms(1) have *: "n = length (normalizeSwitchStrikes n given) \<and>
     obj = \<lparr> surface = surf, index = idx, nStrikes = length (strikes surf),
                 switchStrikes = normalizeSwitchStrikes n given,
                 optionletTenors = map (\<lambda>i. (int i + 1) * tenor idx) [0..<n],
                 capfloorLengths = map (\<lambda>i. (int i + 2) * tenor idx) [0..<n],
                 nOptionletTenors = n,
                 grids = initialGrids n (length (strikes surf)) \<rparr>"
    unfolding new_eq[OF p] n_def Let_def by (simp split: if_splits)
  then show "nOptionletTenors obj = n"
    "optionletTenors obj = map (\<lambda>i. (int i + 1) * tenor idx) [0..<n]"
    "capfloorLengths obj = map (\<lambda>i. (int i + 2) * tenor idx) [0..<n]"
    "switchStrikes obj = normalizeSwitchStrikes n given"
    "length (switchStrikes obj) = n"
    "grids obj = initialGrids n (length (strikes surf))"
    "nStrikes obj = length (strikes surf)"
    "surface obj = surf" "index obj = idx"
    by simp_all
  have "(tenor idx + tenor idx) div tenor idx \<le> last (optionTenors surf) div tenor idx"
    using p by (intro zdiv_mono1) simp_all
  moreover have "(tenor idx + tenor idx) div tenor idx = 2" using p(3) by simp
  ultimately show "2 \<le> last (optionTenors surf) div tenor idx" by simp
qed


lemma ex_new: "newOptionletStripper ex_surface ex_index [] = Some (Inr ex_stripper)"
proof -
  have "optionTenors ex_surface \<noteq> []"
    "tenor ex_index + tenor ex_index \<le> last (optionTenors ex_surface)"
    "0 < tenor ex_index"
    by (simp_all add: ex_surface_def ex_index_def Months_def Years_def)
  from new_eq[OF this, of "[]"] show ?thesis
    by (simp add: ex_surface_def ex_index_def ex_stripper_def Months_def Years_def
        normalizeSwitchStrikes_def upt_conv_Cons numeral_2_eq_2)
qed

lemma ex_tenor_loop:
  "tenor_loop (tenor ex_index) (last (optionTenors ex_surface))
     ([tenor ex_index], [tenor ex_index + tenor ex_index]) =
   Some ([3, 6, 9, 12, 15, 18, 21], [6, 9, 12, 15, 18, 21, 24])"
proof -
  have "0 < tenor ex_index" "tenor ex_index + tenor ex_index \<le> last (optionTenors ex_surface)"
    by (simp_all add: ex_surface_def ex_index_def Months_def Years_def)
  from tenor_grid[OF this] show ?thesis
    by (simp add: ex_surface_def ex_index_def Months_def Years_def upt_conv_Cons)
qed

section \<open>Claims about the construction\<close>

text \<open>
  C1 (as stated, refuted). The claim reads \<open>capfloorLengths[i] = (i+1) * indexTenor\<close>. For a
  three-month index on a surface quoted to two years the first cumulative length is six
  months, which is not \<open>(0+1)\<close> times three months.
\<close>

theorem capfloorLengths_not_i_plus_1:
  "newOptionletStripper ex_surface ex_index [] = Some (Inr ex_stripper) \<and>
   0 < nOptionletTenors ex_stripper \<and>
   capfloorLengths ex_stripper ! 0 \<noteq> (int 0 + 1) * tenor ex_index"
  using ex_new by (simp add: ex_stripper_def ex_index_def Months_def)

text \<open>
  C1 (amended). For every successful construction and every period index \<open>i\<close>, the
  cumulative cap/floor length is \<open>(i+2)\<close> times the index tenor; it is the optionlet tenor
  that is \<open>(i+1)\<close> times the index tenor.
\<close>

theorem capfloorLengths_i_plus_2:
  assumes "newOptionletStripper surf idx given = Some (Inr obj)" "i < nOptionletTenors obj"
  shows "capfloorLengths obj ! i = (int i + 2) * tenor idx \<and>
         optionletTenors obj ! i = (int i + 1) * tenor idx"
  using new_Inr_fields(1-3)[OF assms(1)] assms(2) by simp

text \<open>C1, witness: the fourth period of the three-month example has length fifteen months.\<close>

theorem capfloorLengths_i_plus_2_witness:
  "newOptionletStripper ex_surface ex_index [] = Some (Inr ex_stripper) \<and>
   3 < nOptionletTenors ex_stripper \<and>
   capfloorLengths ex_stripper ! 3 = (int 3 + 2) * tenor ex_index \<and>
   optionletTenors ex_stripper ! 3 = (int 3 + 1) * tenor ex_index \<and>
   capfloorLengths ex_stripper ! 3 = Months 15"
proof -
  have "3 < nOptionletTenors ex_stripper" by (simp add: ex_stripper_def)
  from capfloorLengths_i_plus_2[OF ex_new this] ex_new this show ?thesis
    by (simp add: ex_stripper_def Months_def)
qed

text \<open>
  C2. For every successful construction the two ladders have one entry per period, adjacent
  cumulative lengths differ by exactly the index tenor and so increase strictly, and every
  cumulative length is at most the last option tenor of the surface; and when the first length,
  index tenor plus index tenor, exceeds that maximum, the construction fails with the
  too-short-surface error.
\<close>

theorem capfloorLengths_ladder:
  "(newOptionletStripper surf idx given = Some (Inr obj) \<longrightarrow>
      length (capfloorLengths obj) = nOptionletTenors obj \<and>
      length (optionletTenors obj) = nOptionletTenors obj \<and>
      (1 \<le> i \<and> i < nOptionletTenors obj \<longrightarrow>
         capfloorLengths obj ! i = capfloorLengths obj ! (i - 1) + tenor idx \<and>
         capfloorLengths obj ! (i - 1) < capfloorLengths obj ! i) \<and>
      (k < nOptionletTenors obj \<longrightarrow> capfloorLengths obj ! k \<le> last (optionTenors surf))) \<and>
   (optionTenors surf' \<noteq> [] \<and> last (optionTenors surf') < tenor idx' + tenor idx' \<longrightarrow>
      newOptionletStripper surf' idx' given' = Some (Inl TooShortSurface))"
proof (intro conjI impI)
  assume "optionTenors surf' \<noteq> [] \<and> last (optionTenors surf') < tenor idx' + tenor idx'"
  then show "newOptionletStripper surf' idx' given' = Some (Inl TooShortSurface)"
    by (simp add: newOptionletStripper_def Let_def)
next
  assume a: "newOptionletStripper surf idx given = Some (Inr obj)"
  note f = new_Inr_fields[OF a] and p = new_Inr_pos[OF a]
  show "length (capfloorLengths obj) = nOptionletTenors obj" using f(1,3) by simp
  show "length (optionletTenors obj) = nOptionletTenors obj" using f(1,2) by simp
  have L: "capfloorLengths obj ! j = (int j + 2) * tenor idx" if "j < nOptionletTenors obj" for j
    using that f(1,3) by simp
  { assume i: "1 \<le> i \<and> i < nOptionletTenors obj"
    then have "capfloorLengths obj ! i = (int i + 2) * tenor idx"
      "capfloorLengths obj ! (i - 1) = (int (i - 1) + 2) * tenor idx"
      by (simp_all only: L less_imp_diff_less)
    moreover have "int (i - 1) = int i - 1" using i by simp
    ultimately have e: "capfloorLengths obj ! i = capfloorLengths obj ! (i - 1) + tenor idx"
      by (simp add: algebra_simps)
    show "capfloorLengths obj ! i = capfloorLengths obj ! (i - 1) + tenor idx" by (rule e)
    show "capfloorLengths obj ! (i - 1) < capfloorLengths obj ! i" using e p(3) by simp
  }
  { assume k: "k < nOptionletTenors obj"
    then have "capfloorLengths obj ! k = (int k + 2) * tenor idx" using f(1,3) by simp
    moreover have "int k + 2 \<le> last (optionTenors surf) div tenor idx"
      using k f(1,10) by linarith
    then have "(int k + 2) * tenor idx \<le> (last (optionTenors surf) div tenor idx) * tenor idx"
      using p(3) by (intro mult_right_mono) simp_all
    moreover have "(last (optionTenors surf) div tenor idx) * tenor idx \<le> last (optionTenors surf)"
      using div_mult_mod_eq[of "last (optionTenors surf)" "tenor idx"]
        pos_mod_sign[of "tenor idx" "last (optionTenors surf)"] p(3) by linarith
    ultimately show "capfloorLengths obj ! k \<le> last (optionTenors surf)" by linarith
  }
qed

text \<open>C2, witness: the three-month example, and a surface quoted to five months only.\<close>

theorem capfloorLengths_ladder_witness:
  "newOptionletStripper ex_surface ex_index [] = Some (Inr ex_stripper) \<and>
   length (capfloorLengths ex_stripper) = nOptionletTenors ex_stripper \<and>
   (1::nat) \<le> 6 \<and> 6 < nOptionletTenors ex_stripper \<and>
   capfloorLengths ex_stripper ! 6 = capfloorLengths ex_stripper ! (6 - 1) + tenor ex_index \<and>
   capfloorLengths ex_stripper ! (6 - 1) < capfloorLengths ex_stripper ! 6 \<and>
   capfloorLengths ex_stripper ! 6 \<le> last (optionTenors ex_surface) \<and>
   optionTenors short_surface \<noteq> [] \<and>
   last (optionTenors short_surface) < tenor ex_index + tenor ex_index \<and>
   newOptionletStripper short_surface ex_index [] = Some (Inl TooShortSurface)"
proof -
  have h: "(1::nat) \<le> 6 \<and> 6 < nOptionletTenors ex_stripper"
    "optionTenors short_surface \<noteq> [] \<and>
     last (optionTenors short_surface) < tenor ex_index + tenor ex_index"
    by (simp_all add: ex_stripper_def short_surface_def ex_surface_def ex_index_def Months_def)
  from capfloorLengths_ladder[of ex_surface ex_index "[]" ex_stripper 6 6
      short_surface ex_index "[]"] ex_new h
  show ?thesis by simp
qed


text \<open>
  C3. With an index tenor of three months on a surface whose last option tenor is two years,
  the construction returns; whenever it succeeds there are exactly seven optionlet periods,
  3M, 6M, ..., 21M, with cumulative lengths 6M, 9M, ..., 24M, the last being the two years, and
  an eighth period is not produced because 24M + 3M exceeds two years. It succeeds when no,
  one or seven switch strikes are given.
\<close>

theorem tenor_grid_3M_2Y:
  assumes "optionTenors surf \<noteq> []" "last (optionTenors surf) = Years 2" "tenor idx = Months 3"
  shows "(\<exists>r. newOptionletStripper surf idx given = Some r) \<and>
    (given = [] \<or> length given = 1 \<or> length given = 7 \<longrightarrow>
       (\<exists>obj. newOptionletStripper surf idx given = Some (Inr obj))) \<and>
    (newOptionletStripper surf idx given = Some (Inr obj) \<longrightarrow>
       nOptionletTenors obj = 7 \<and>
       optionletTenors obj =
         [Months 3, Months 6, Months 9, Months 12, Months 15, Months 18, Months 21] \<and>
       capfloorLengths obj =
         [Months 6, Months 9, Months 12, Months 15, Months 18, Months 21, Months 24] \<and>
       last (capfloorLengths obj) = Years 2 \<and>
       \<not> last (capfloorLengths obj) + Months 3 \<le> Years 2)"
proof -
  have h: "tenor idx + tenor idx \<le> last (optionTenors surf)" "0 < tenor idx"
    using assms by (simp_all add: Months_def Years_def)
  have n: "nat (last (optionTenors surf) div tenor idx) - 1 = 7"
    using assms by (simp add: Months_def Years_def)
  note e = new_eq[OF assms(1) h, of given, unfolded n Let_def]
  have 1: "\<exists>r. newOptionletStripper surf idx given = Some r"
    unfolding e by simp
  have 2: "\<exists>obj. newOptionletStripper surf idx given = Some (Inr obj)"
    if "given = [] \<or> length given = 1 \<or> length given = 7"
    unfolding e using that by (auto simp: normalizeSwitchStrikes_def)
  have 3: "nOptionletTenors obj = 7 \<and>
       optionletTenors obj =
         [Months 3, Months 6, Months 9, Months 12, Months 15, Months 18, Months 21] \<and>
       capfloorLengths obj =
         [Months 6, Months 9, Months 12, Months 15, Months 18, Months 21, Months 24] \<and>
       last (capfloorLengths obj) = Years 2 \<and>
       \<not> last (capfloorLengths obj) + Months 3 \<le> Years 2"
    if a: "newOptionletStripper surf idx given = Some (Inr obj)"
    using new_Inr_fields(1-3)[OF a, unfolded n] assms(3)
    by (simp add: Months_def Years_def upt_conv_Cons)
  from 1 2 3 show ?thesis by blast
qed

text \<open>C3, witness: the example surface and index.\<close>

theorem tenor_grid_3M_2Y_witness:
  "optionTenors ex_surface \<noteq> [] \<and> last (optionTenors ex_surface) = Years 2 \<and>
   tenor ex_index = Months 3 \<and>
   newOptionletStripper ex_surface ex_index [] = Some (Inr ex_stripper) \<and>
   nOptionletTenors ex_stripper = 7 \<and>
   optionletTenors ex_stripper =
     [Months 3, Months 6, Months 9, Months 12, Months 15, Months 18, Months 21] \<and>
   capfloorLengths ex_stripper =
     [Months 6, Months 9, Months 12, Months 15, Months 18, Months 21, Months 24]"
proof -
  have h: "optionTenors ex_surface \<noteq> []" "last (optionTenors ex_surface) = Years 2"
    "tenor ex_index = Months 3"
    by (simp_all add: ex_surface_def ex_index_def)
  from tenor_grid_3M_2Y[OF h, of "[]" ex_stripper] ex_new h show ?thesis by simp
qed

text \<open>
  C7. Where the tenor grid has \<open>N\<close> periods (the loop returns \<open>N\<close> tenors): one given switch
  strike is broadcast to \<open>N\<close> equal entries; none gives \<open>N\<close> entries of 0.04; any other
  sequence is kept and the construction succeeds exactly when its length is \<open>N\<close>, failing
  with the mismatch error otherwise; and every constructed object has \<open>N\<close> switch strikes.
\<close>

theorem switchStrikes_normalization:
  assumes "optionTenors surf \<noteq> []" "tenor idx + tenor idx \<le> last (optionTenors surf)"
    and "tenor_loop (tenor idx) (last (optionTenors surf))
           ([tenor idx], [tenor idx + tenor idx]) = Some (ts, ls)"
  shows "(length given = 1 \<longrightarrow>
            (\<exists>obj. newOptionletStripper surf idx given = Some (Inr obj) \<and>
                   switchStrikes obj = replicate (length ts) (given ! 0))) \<and>
         (given = [] \<longrightarrow>
            (\<exists>obj. newOptionletStripper surf idx given = Some (Inr obj) \<and>
                   switchStrikes obj = replicate (length ts) (4 / 100))) \<and>
         (length given \<noteq> 1 \<and> given \<noteq> [] \<longrightarrow>
            (if length given = length ts
             then \<exists>obj. newOptionletStripper surf idx given = Some (Inr obj) \<and>
                        switchStrikes obj = given
             else newOptionletStripper surf idx given = Some (Inl SwitchStrikesMismatch))) \<and>
         (\<forall>obj. newOptionletStripper surf idx given = Some (Inr obj) \<longrightarrow>
            nOptionletTenors obj = length ts \<and> length (switchStrikes obj) = length ts)"
proof -
  have c: "\<not> \<not> last (optionTenors surf) \<ge> last [last [tenor idx] + tenor idx]"
    using assms(2) by simp
  have tl: "tenor_loop (tenor idx) (last (optionTenors surf))
           ([tenor idx], [last [tenor idx] + tenor idx]) = Some (ts, ls)"
    using assms(3) by simp
  have e: "newOptionletStripper surf idx given =
     (if length ts \<noteq> length (normalizeSwitchStrikes (length ts) given)
      then Some (Inl SwitchStrikesMismatch)
      else Some (Inr \<lparr> surface = surf, index = idx, nStrikes = length (strikes surf),
                 switchStrikes = normalizeSwitchStrikes (length ts) given,
                 optionletTenors = ts, capfloorLengths = ls,
                 nOptionletTenors = length ts,
                 grids = initialGrids (length ts) (length (strikes surf)) \<rparr>))"
    unfolding newOptionletStripper_def Let_def if_not_P[OF assms(1)] if_not_P[OF c] tl
    by (simp only: option.case prod.case)
  have 1: "length given = 1 \<Longrightarrow> normalizeSwitchStrikes (length ts) given
             = replicate (length ts) (given ! 0)"
    by (auto simp: normalizeSwitchStrikes_def)
  have 2: "given = [] \<Longrightarrow> normalizeSwitchStrikes (length ts) given
             = replicate (length ts) (4 / 100)"
    by (simp add: normalizeSwitchStrikes_def)
  have 3: "length given \<noteq> 1 \<and> given \<noteq> [] \<Longrightarrow> normalizeSwitchStrikes (length ts) given = given"
    by (simp add: normalizeSwitchStrikes_def)
  show ?thesis
  proof (intro conjI impI allI)
    assume "length given = 1"
    from 1[OF this] show "\<exists>obj. newOptionletStripper surf idx given = Some (Inr obj) \<and>
                   switchStrikes obj = replicate (length ts) (given ! 0)"
      unfolding e by simp
  next
    assume "given = []"
    from 2[OF this] show "\<exists>obj. newOptionletStripper surf idx given = Some (Inr obj) \<and>
                   switchStrikes obj = replicate (length ts) (4 / 100)"
      unfolding e by simp
  next
    assume "length given \<noteq> 1 \<and> given \<noteq> []"
    from 3[OF this] show "if length given = length ts
             then \<exists>obj. newOptionletStripper surf idx given = Some (Inr obj) \<and>
                        switchStrikes obj = given
             else newOptionletStripper surf idx given = Some (Inl SwitchStrikesMismatch)"
      unfolding e by auto
  next
    fix obj assume "newOptionletStripper surf idx given = Some (Inr obj)"
    then show "nOptionletTenors obj = length ts" "length (switchStrikes obj) = length ts"
      unfolding e by (auto split: if_splits)
  qed
qed

text \<open>C7, witness: one strike, no strike and two strikes on the seven-period example.\<close>

theorem switchStrikes_normalization_witness:
  "optionTenors ex_surface \<noteq> [] \<and>
   tenor ex_index + tenor ex_index \<le> last (optionTenors ex_surface) \<and>
   tenor_loop (tenor ex_index) (last (optionTenors ex_surface))
     ([tenor ex_index], [tenor ex_index + tenor ex_index]) =
     Some ([3, 6, 9, 12, 15, 18, 21], [6, 9, 12, 15, 18, 21, 24]) \<and>
   (\<exists>obj. newOptionletStripper ex_surface ex_index [5 / 100] = Some (Inr obj) \<and>
          switchStrikes obj = replicate 7 (5 / 100)) \<and>
   (\<exists>obj. newOptionletStripper ex_surface ex_index [] = Some (Inr obj) \<and>
          switchStrikes obj = replicate 7 (4 / 100)) \<and>
   newOptionletStripper ex_surface ex_index [3 / 100, 5 / 100] = Some (Inl SwitchStrikesMismatch)"
proof -
  have h: "optionTenors ex_surface \<noteq> []"
    "tenor ex_index + tenor ex_index \<le> last (optionTenors ex_surface)"
    by (simp_all add: ex_surface_def ex_index_def Months_def Years_def)
  from switchStrikes_normalization[OF h ex_tenor_loop, of "[5 / 100]"]
    switchStrikes_normalization[OF h ex_tenor_loop, of "[]"]
    switchStrikes_normalization[OF h ex_tenor_loop, of "[3 / 100, 5 / 100]"]
    h ex_tenor_loop
  show ?thesis by (simp add: numeral_eq_Suc)
qed


section \<open>The loops of a pass\<close>

text \<open>Writing one entry of a matrix keeps its shape and every other entry.\<close>

lemma put_length [simp]: "length (put m i j v) = length m"
  by (simp add: put_def)

lemma put_row_length [simp]: "length (put m i j v ! r) = length (m ! r)"
  by (cases "i < length m"; cases "r = i") (simp_all add: put_def list_update_beyond)

lemma put_nth_eq: "i < length m \<Longrightarrow> j < length (m ! i) \<Longrightarrow> put m i j v ! i ! j = v"
  by (simp add: put_def)

lemma put_nth_neq: "i' \<noteq> i \<or> j' \<noteq> j \<Longrightarrow> put m i j v ! i' ! j' = m ! i' ! j'"
  by (cases "i < length m"; cases "i' = i") (auto simp: put_def list_update_beyond)

lemma is_matrix_put [simp]: "is_matrix n m (put M i j v) = is_matrix n m M"
  by (auto simp: is_matrix_def list_all_length)

lemma strip_cell_eq:
  assumes "ready n m g" "i < n" "j < m" "p = previousPrice env self i j"
  shows "strip_cell env self j i p g =
     (case cellSolve env self g i j of
        Inl what \<Rightarrow> Inl (cellFailure env self g i j what, pricedGrids env self g i j)
      | Inr sd \<Rightarrow> Inr (cellPrice env self i j, invertedGrids env self g i j sd))"
proof -
  have len: "i < length (capfloorVols g)" "j < length (capfloorVols g ! i)"
    "i < length (capfloors g)" "j < length (capfloors g ! i)"
    "i < length (capfloorPrices g)" "j < length (capfloorPrices g ! i)"
    "i < length (optionletPrices g)" "j < length (optionletPrices g ! i)"
    "i < length (optionletStDevs g)" "j < length (optionletStDevs g ! i)"
    using assms(1-3) by (auto simp: ready_def grid_shape_def is_matrix_def list_all_length)
  show ?thesis
    using len assms(4)
    by (simp add: strip_cell_def Let_def put_nth_eq pricedGrids_def invertedGrids_def
      cellSolve_def cellFailure_def cellInstrument_def cellPrice_def cellAnnuity_def
      split: sum.splits)
qed

lemma ready_pricedGrids: "ready n m g \<Longrightarrow> ready n m (pricedGrids env self g i j)"
  by (simp add: ready_def grid_shape_def pricedGrids_def)

lemma ready_invertedGrids: "ready n m g \<Longrightarrow> ready n m (invertedGrids env self g i j sd)"
  by (simp add: ready_def grid_shape_def pricedGrids_def invertedGrids_def)

lemma vecs_pricedGrids: "vecs (pricedGrids env self g i j) = vecs g"
  by (simp add: vecs_def pricedGrids_def)

lemma vecs_invertedGrids: "vecs (invertedGrids env self g i j sd) = vecs g"
  by (simp add: vecs_def pricedGrids_def invertedGrids_def)

lemma cell_pricedGrids_other:
  "a \<noteq> i \<or> b \<noteq> j \<Longrightarrow> cell (pricedGrids env self g i j) a b = cell g a b"
  by (simp add: cell_def pricedGrids_def put_nth_neq)

lemma cell_invertedGrids_other:
  "a \<noteq> i \<or> b \<noteq> j \<Longrightarrow> cell (invertedGrids env self g i j sd) a b = cell g a b"
  by (simp add: cell_def pricedGrids_def invertedGrids_def put_nth_neq)

lemma ready_lengths:
  assumes "ready n m g" "i < n" "j < m"
  shows "i < length (capfloorVols g)" "j < length (capfloorVols g ! i)"
    "i < length (capfloors g)" "j < length (capfloors g ! i)"
    "i < length (capfloorPrices g)" "j < length (capfloorPrices g ! i)"
    "i < length (optionletPrices g)" "j < length (optionletPrices g ! i)"
    "i < length (optionletStDevs g)" "j < length (optionletStDevs g ! i)"
    "i < length (optionletVols g)" "j < length (optionletVols g ! i)"
  using assms by (auto simp: ready_def grid_shape_def is_matrix_def list_all_length)

lemma cell_pricedGrids_this:
  assumes "ready n m g" "i < n" "j < m"
  shows "cell (pricedGrids env self g i j) i j = failedCell env self g i j"
  using ready_lengths[OF assms]
  by (simp add: cell_def pricedGrids_def failedCell_def put_nth_eq)

lemma cell_invertedGrids_this:
  assumes "ready n m g" "i < n" "j < m"
  shows "cell (invertedGrids env self g i j sd) i j = strippedCell env self g i j sd"
  using ready_lengths[OF assms]
  by (simp add: cell_def pricedGrids_def invertedGrids_def strippedCell_def put_nth_eq)

lemma strip_cell_Inr:
  assumes "ready n m g" "i < n" "j < m" "p = previousPrice env self i j"
    and "strip_cell env self j i p g = Inr (p', g')"
  shows "p' = previousPrice env self (Suc i) j" "ready n m g'" "vecs g' = vecs g"
    "stripped env self g g' i j"
    "\<And>a b. a \<noteq> i \<or> b \<noteq> j \<Longrightarrow> cell g' a b = cell g a b"
proof -
  obtain sd where sd: "cellSolve env self g i j = Inr sd"
    and g': "g' = invertedGrids env self g i j sd"
    and p': "p' = cellPrice env self i j"
  proof (cases "cellSolve env self g i j")
    case (Inl what)
    with assms(5) show ?thesis by (simp add: strip_cell_eq[OF assms(1-4)])
  next
    case (Inr sd)
    with assms(5) that[of sd] show ?thesis by (simp add: strip_cell_eq[OF assms(1-4)])
  qed
  show "p' = previousPrice env self (Suc i) j" using p' by (simp add: previousPrice_def)
  show "ready n m g'" unfolding g' by (rule ready_invertedGrids[OF assms(1)])
  show "vecs g' = vecs g" unfolding g' by (rule vecs_invertedGrids)
  show "stripped env self g g' i j"
    by (simp add: stripped_def sd g' cell_invertedGrids_this[OF assms(1-3)])
  show "\<And>a b. a \<noteq> i \<or> b \<noteq> j \<Longrightarrow> cell g' a b = cell g a b"
    unfolding g' by (rule cell_invertedGrids_other)
qed

lemma strip_cell_Inl:
  assumes "ready n m g" "i < n" "j < m" "p = previousPrice env self i j"
    and "strip_cell env self j i p g = Inl (f, g')"
  shows "ready n m g'" "vecs g' = vecs g"
    "failed env self g g' f i j"
    "\<And>a b. a \<noteq> i \<or> b \<noteq> j \<Longrightarrow> cell g' a b = cell g a b"
proof -
  obtain what where what: "cellSolve env self g i j = Inl what"
    and g': "g' = pricedGrids env self g i j"
    and f: "f = cellFailure env self g i j what"
  proof (cases "cellSolve env self g i j")
    case (Inl what)
    with assms(5) that[of what] show ?thesis by (simp add: strip_cell_eq[OF assms(1-4)])
  next
    case (Inr sd)
    with assms(5) show ?thesis by (simp add: strip_cell_eq[OF assms(1-4)])
  qed
  show "ready n m g'" unfolding g' by (rule ready_pricedGrids[OF assms(1)])
  show "vecs g' = vecs g" unfolding g' by (rule vecs_pricedGrids)
  show "failed env self g g' f i j"
    by (simp add: failed_def what f g' cell_pricedGrids_this[OF assms(1-3)])
  show "\<And>a b. a \<noteq> i \<or> b \<noteq> j \<Longrightarrow> cell g' a b = cell g a b"
    unfolding g' by (rule cell_pricedGrids_other)
qed

lemma cellSolve_cong:
  assumes "vecs g1 = vecs g" "cell g1 i j = cell g i j"
  shows "cellSolve env self g1 i j = cellSolve env self g i j"
proof -
  from assms(1) have "atmOptionletRate g1 = atmOptionletRate g"
    "optionletDates g1 = optionletDates g"
    "optionletAccrualPeriods g1 = optionletAccrualPeriods g"
    by (simp_all add: vecs_def)
  moreover from assms(2) have "optionletStDevs g1 ! i ! j = optionletStDevs g ! i ! j"
    by (simp add: cell_def)
  ultimately show ?thesis by (simp add: cellSolve_def cellAnnuity_def)
qed

lemma stripped_cong:
  assumes "vecs g1 = vecs g" "cell g1 i j = cell g i j"
  shows "stripped env self g1 g' i j = stripped env self g g' i j"
proof -
  from assms(1) have "optionletTimes g1 = optionletTimes g" by (simp add: vecs_def)
  then have "strippedCell env self g1 i j = strippedCell env self g i j"
    by (simp add: strippedCell_def fun_eq_iff)
  then show ?thesis
    unfolding stripped_def cellSolve_cong[OF assms] by (simp cong: sum.case_cong)
qed

lemma failed_cong:
  assumes "vecs g1 = vecs g" "cell g1 i j = cell g i j"
  shows "failed env self g1 g' f i j = failed env self g g' f i j"
proof -
  from assms(1) have v: "atmOptionletRate g1 = atmOptionletRate g"
    "optionletDates g1 = optionletDates g"
    "optionletAccrualPeriods g1 = optionletAccrualPeriods g"
    by (simp_all add: vecs_def)
  from assms(2) have c: "optionletStDevs g1 ! i ! j = optionletStDevs g ! i ! j"
    "optionletVols g1 ! i ! j = optionletVols g ! i ! j"
    by (simp_all add: cell_def)
  have 1: "failedCell env self g1 i j = failedCell env self g i j"
    using c by (simp add: failedCell_def)
  have 2: "cellFailure env self g1 i j = cellFailure env self g i j"
    using v by (simp add: cellFailure_def cellAnnuity_def fun_eq_iff)
  show ?thesis
    unfolding failed_def cellSolve_cong[OF assms] using 1 2 by (simp cong: sum.case_cong)
qed

lemma stripped_later:
  "cell g2 i j = cell g1 i j \<Longrightarrow> stripped env self g g1 i j \<Longrightarrow> stripped env self g g2 i j"
  by (simp add: stripped_def split: sum.splits)

lemma inner_loop_Inr:
  "n - i = k \<Longrightarrow> ready n m g \<Longrightarrow> n = nOptionletTenors self \<Longrightarrow> j < m \<Longrightarrow>
   p = previousPrice env self i j \<Longrightarrow> inner_loop env self j i p g = Inr g' \<Longrightarrow>
   ready n m g' \<and> vecs g' = vecs g \<and>
   (\<forall>a b. b \<noteq> j \<or> a < i \<longrightarrow> cell g' a b = cell g a b) \<and>
   (\<forall>a. i \<le> a \<and> a < n \<longrightarrow> stripped env self g g' a j)"
proof (induction k arbitrary: i p g)
  case 0
  then have "\<not> i < nOptionletTenors self" by simp
  with 0 have "g' = g" by (simp add: inner_loop.simps)
  with 0 show ?case by auto
next
  case (Suc k)
  then have i: "i < n" "i < nOptionletTenors self" by simp_all
  from Suc.prems(6) i obtain p1 g1 where
    sc: "strip_cell env self j i p g = Inr (p1, g1)" and
    il: "inner_loop env self j (Suc i) p1 g1 = Inr g'"
    by (subst (asm) inner_loop.simps) (auto split: sum.splits)
  note c = strip_cell_Inr[OF Suc.prems(2) i(1) Suc.prems(4) Suc.prems(5) sc]
  have "n - Suc i = k" using Suc.prems(1) by simp
  from Suc.IH[OF this c(2) Suc.prems(3) Suc.prems(4) c(1) il]
  have r: "ready n m g'" and v: "vecs g' = vecs g1"
    and fr: "\<forall>a b. b \<noteq> j \<or> a < Suc i \<longrightarrow> cell g' a b = cell g1 a b"
    and st: "\<forall>a. Suc i \<le> a \<and> a < n \<longrightarrow> stripped env self g1 g' a j"
    by blast+
  have A: "cell g' a b = cell g a b" if "b \<noteq> j \<or> a < i" for a b
  proof -
    from that have "cell g' a b = cell g1 a b" using fr by auto
    moreover from that have "cell g1 a b = cell g a b" by (intro c(5)) auto
    ultimately show ?thesis by simp
  qed
  have B: "stripped env self g g' a j" if "i \<le> a \<and> a < n" for a
  proof (cases "a = i")
    case True
    have "cell g' i j = cell g1 i j" using fr by simp
    from stripped_later[OF this c(4)] True show ?thesis by simp
  next
    case False
    with that have "Suc i \<le> a \<and> a < n" by simp
    with st have "stripped env self g1 g' a j" by blast
    moreover have "cell g1 a j = cell g a j" using False by (intro c(5)) simp
    ultimately show ?thesis using stripped_cong[OF c(3), of a j] by simp
  qed
  have v': "vecs g' = vecs g" using v c(3) by simp
  show ?case
    by (intro conjI allI impI) (rule r, rule v', erule A, erule B)
qed


lemma inner_loop_Inl:
  "n - i = k \<Longrightarrow> ready n m g \<Longrightarrow> n = nOptionletTenors self \<Longrightarrow> j < m \<Longrightarrow>
   p = previousPrice env self i j \<Longrightarrow> inner_loop env self j i p g = Inl (f, g') \<Longrightarrow>
   ready n m g' \<and> vecs g' = vecs g \<and>
   (\<forall>a b. b \<noteq> j \<or> a < i \<longrightarrow> cell g' a b = cell g a b) \<and>
   (\<exists>a. i \<le> a \<and> a < n \<and> failed env self g g' f a j \<and>
        (\<forall>a'. i \<le> a' \<and> a' < a \<longrightarrow> stripped env self g g' a' j) \<and>
        (\<forall>a'. a < a' \<longrightarrow> cell g' a' j = cell g a' j))"
proof (induction k arbitrary: i p g)
  case 0
  then have "\<not> i < nOptionletTenors self" by simp
  with 0(6) show ?case by (simp add: inner_loop.simps)
next
  case (Suc k)
  then have i: "i < n" "i < nOptionletTenors self" by simp_all
  show ?case
  proof (cases "strip_cell env self j i p g")
    case (Inl e)
    with Suc.prems(6) i have e: "e = (f, g')"
      by (subst (asm) inner_loop.simps) simp
    note c = strip_cell_Inl[OF Suc.prems(2) i(1) Suc.prems(4) Suc.prems(5) Inl[unfolded e]]
    have A: "cell g' a b = cell g a b" if "b \<noteq> j \<or> a < i" for a b
      using that by (intro c(4)) auto
    have C: "cell g' a' j = cell g a' j" if "i < a'" for a'
      using that by (intro c(4)) auto
    have "i \<le> i \<and> i < n \<and> failed env self g g' f i j \<and>
        (\<forall>a'. i \<le> a' \<and> a' < i \<longrightarrow> stripped env self g g' a' j) \<and>
        (\<forall>a'. i < a' \<longrightarrow> cell g' a' j = cell g a' j)"
      using i(1) c(3) C by auto
    then have E: "\<exists>a. i \<le> a \<and> a < n \<and> failed env self g g' f a j \<and>
        (\<forall>a'. i \<le> a' \<and> a' < a \<longrightarrow> stripped env self g g' a' j) \<and>
        (\<forall>a'. a < a' \<longrightarrow> cell g' a' j = cell g a' j)" ..
    show ?thesis
      by (intro conjI allI impI) (rule c(1), rule c(2), erule A, rule E)
  next
    case (Inr r)
    obtain p1 g1 where r: "r = (p1, g1)" by (cases r)
    from Suc.prems(6) i Inr r have il: "inner_loop env self j (Suc i) p1 g1 = Inl (f, g')"
      by (subst (asm) inner_loop.simps) simp
    note c = strip_cell_Inr[OF Suc.prems(2) i(1) Suc.prems(4) Suc.prems(5) Inr[unfolded r]]
    have "n - Suc i = k" using Suc.prems(1) by simp
    from Suc.IH[OF this c(2) Suc.prems(3) Suc.prems(4) c(1) il]
    have rd: "ready n m g'" and v: "vecs g' = vecs g1"
      and fr: "\<forall>a b. b \<noteq> j \<or> a < Suc i \<longrightarrow> cell g' a b = cell g1 a b"
      and ex: "\<exists>a. Suc i \<le> a \<and> a < n \<and> failed env self g1 g' f a j \<and>
        (\<forall>a'. Suc i \<le> a' \<and> a' < a \<longrightarrow> stripped env self g1 g' a' j) \<and>
        (\<forall>a'. a < a' \<longrightarrow> cell g' a' j = cell g1 a' j)"
      by blast+
    from ex obtain a where a: "Suc i \<le> a" "a < n" "failed env self g1 g' f a j"
      and st: "\<forall>a'. Suc i \<le> a' \<and> a' < a \<longrightarrow> stripped env self g1 g' a' j"
      and af: "\<forall>a'. a < a' \<longrightarrow> cell g' a' j = cell g1 a' j"
      by blast
    have A: "cell g' x b = cell g x b" if "b \<noteq> j \<or> x < i" for x b
    proof -
      from that have "cell g' x b = cell g1 x b" using fr by auto
      moreover from that have "cell g1 x b = cell g x b" by (intro c(5)) auto
      ultimately show ?thesis by simp
    qed
    have "cell g1 a j = cell g a j" using a(1) by (intro c(5)) simp
    from failed_cong[OF c(3) this] a(3) have F: "failed env self g g' f a j" by simp
    have B: "stripped env self g g' a' j" if "i \<le> a' \<and> a' < a" for a'
    proof (cases "a' = i")
      case True
      have "cell g' i j = cell g1 i j" using fr by simp
      from stripped_later[OF this c(4)] True show ?thesis by simp
    next
      case False
      with that have "Suc i \<le> a' \<and> a' < a" by simp
      with st have "stripped env self g1 g' a' j" by blast
      moreover have "cell g1 a' j = cell g a' j" using False by (intro c(5)) simp
      ultimately show ?thesis using stripped_cong[OF c(3), of a' j] by simp
    qed
    have C: "cell g' a' j = cell g a' j" if "a < a'" for a'
    proof -
      from that af have "cell g' a' j = cell g1 a' j" by blast
      moreover from that a(1) have "cell g1 a' j = cell g a' j" by (intro c(5)) simp
      ultimately show ?thesis by simp
    qed
    have "i \<le> a \<and> a < n \<and> failed env self g g' f a j \<and>
        (\<forall>a'. i \<le> a' \<and> a' < a \<longrightarrow> stripped env self g g' a' j) \<and>
        (\<forall>a'. a < a' \<longrightarrow> cell g' a' j = cell g a' j)"
      using a(1,2) F B C by auto
    then have E: "\<exists>a. i \<le> a \<and> a < n \<and> failed env self g g' f a j \<and>
        (\<forall>a'. i \<le> a' \<and> a' < a \<longrightarrow> stripped env self g g' a' j) \<and>
        (\<forall>a'. a < a' \<longrightarrow> cell g' a' j = cell g a' j)" ..
    have v': "vecs g' = vecs g" using v c(3) by simp
    show ?thesis
      by (intro conjI allI impI) (rule rd, rule v', erule A, rule E)
  qed
qed

lemma previousPrice_0: "0 = previousPrice env self 0 j"
  by (simp add: previousPrice_def)

lemma outer_loop_Inr:
  "m - j = k \<Longrightarrow> ready n m g \<Longrightarrow> n = nOptionletTenors self \<Longrightarrow> m = nStrikes self \<Longrightarrow>
   outer_loop env self j g = Inr g' \<Longrightarrow>
   ready n m g' \<and> vecs g' = vecs g \<and>
   (\<forall>a b. b < j \<longrightarrow> cell g' a b = cell g a b) \<and>
   (\<forall>a b. j \<le> b \<and> b < m \<and> a < n \<longrightarrow> stripped env self g g' a b)"
proof (induction k arbitrary: j g)
  case 0
  then have "\<not> j < nStrikes self" by simp
  with 0(5) have "g' = g" by (simp add: outer_loop.simps)
  with 0 show ?case by auto
next
  case (Suc k)
  then have j: "j < m" "j < nStrikes self" by simp_all
  from Suc.prems(5) j obtain g1 where
    il: "inner_loop env self j 0 0 g = Inr g1" and
    ol: "outer_loop env self (Suc j) g1 = Inr g'"
    by (subst (asm) outer_loop.simps) (simp split: sum.splits)
  from inner_loop_Inr[OF refl Suc.prems(2) Suc.prems(3) j(1) previousPrice_0 il]
  have r1: "ready n m g1" and v1: "vecs g1 = vecs g"
    and fr1: "\<forall>a b. b \<noteq> j \<or> a < 0 \<longrightarrow> cell g1 a b = cell g a b"
    and st1: "\<forall>a. 0 \<le> a \<and> a < n \<longrightarrow> stripped env self g g1 a j"
    by blast+
  have "m - Suc j = k" using Suc.prems(1) by simp
  from Suc.IH[OF this r1 Suc.prems(3) Suc.prems(4) ol]
  have r: "ready n m g'" and v: "vecs g' = vecs g1"
    and fr: "\<forall>a b. b < Suc j \<longrightarrow> cell g' a b = cell g1 a b"
    and st: "\<forall>a b. Suc j \<le> b \<and> b < m \<and> a < n \<longrightarrow> stripped env self g1 g' a b"
    by blast+
  have A: "cell g' a b = cell g a b" if "b < j" for a b
  proof -
    from that have "cell g' a b = cell g1 a b" using fr by simp
    moreover from that have "cell g1 a b = cell g a b" using fr1 by simp
    ultimately show ?thesis by simp
  qed
  have B: "stripped env self g g' a b" if "j \<le> b \<and> b < m \<and> a < n" for a b
  proof (cases "b = j")
    case True
    have "cell g' a j = cell g1 a j" using fr by simp
    moreover have "stripped env self g g1 a j" using st1 that by simp
    ultimately show ?thesis using True stripped_later by simp
  next
    case False
    with that have "Suc j \<le> b \<and> b < m \<and> a < n" by simp
    with st have "stripped env self g1 g' a b" by blast
    moreover have "cell g1 a b = cell g a b" using False fr1 by simp
    ultimately show ?thesis using stripped_cong[OF v1, of a b] by simp
  qed
  have v': "vecs g' = vecs g" using v v1 by simp
  show ?case
    by (intro conjI allI impI) (rule r, rule v', erule A, erule B)
qed


lemma outer_loop_Inl:
  "m - j = k \<Longrightarrow> ready n m g \<Longrightarrow> n = nOptionletTenors self \<Longrightarrow> m = nStrikes self \<Longrightarrow>
   outer_loop env self j g = Inl (f, g') \<Longrightarrow>
   ready n m g' \<and> vecs g' = vecs g \<and>
   (\<forall>a b. b < j \<longrightarrow> cell g' a b = cell g a b) \<and>
   (\<exists>a b. j \<le> b \<and> b < m \<and> a < n \<and> failed env self g g' f a b \<and>
        (\<forall>a' b'. a' < n \<and> j \<le> b' \<and> visitedBefore a' b' a b \<longrightarrow> stripped env self g g' a' b') \<and>
        (\<forall>a' b'. visitedBefore a b a' b' \<longrightarrow> cell g' a' b' = cell g a' b'))"
proof (induction k arbitrary: j g)
  case 0
  then have "\<not> j < nStrikes self" by simp
  with 0(5) show ?case by (simp add: outer_loop.simps)
next
  case (Suc k)
  then have j: "j < m" "j < nStrikes self" by simp_all
  show ?case
  proof (cases "inner_loop env self j 0 0 g")
    case (Inl e)
    with Suc.prems(5) j have e: "e = (f, g')"
      by (subst (asm) outer_loop.simps) simp
    from inner_loop_Inl[OF refl Suc.prems(2) Suc.prems(3) j(1) previousPrice_0 Inl[unfolded e]]
    have rd: "ready n m g'" and v: "vecs g' = vecs g"
      and fr: "\<forall>a b. b \<noteq> j \<or> a < 0 \<longrightarrow> cell g' a b = cell g a b"
      and ex: "\<exists>a. 0 \<le> a \<and> a < n \<and> failed env self g g' f a j \<and>
        (\<forall>a'. 0 \<le> a' \<and> a' < a \<longrightarrow> stripped env self g g' a' j) \<and>
        (\<forall>a'. a < a' \<longrightarrow> cell g' a' j = cell g a' j)"
      by blast+
    from ex obtain a where a: "a < n" "failed env self g g' f a j"
      and st: "\<forall>a'. 0 \<le> a' \<and> a' < a \<longrightarrow> stripped env self g g' a' j"
      and af: "\<forall>a'. a < a' \<longrightarrow> cell g' a' j = cell g a' j"
      by blast
    have A: "cell g' x b = cell g x b" if "b < j" for x b
      using that fr by simp
    have B: "stripped env self g g' a' b'" if "a' < n \<and> j \<le> b' \<and> visitedBefore a' b' a j" for a' b'
      using that st by (auto simp: visitedBefore_def)
    have C: "cell g' a' b' = cell g a' b'" if "visitedBefore a j a' b'" for a' b'
      using that af fr by (auto simp: visitedBefore_def)
    have "j \<le> j \<and> j < m \<and> a < n \<and> failed env self g g' f a j \<and>
        (\<forall>a' b'. a' < n \<and> j \<le> b' \<and> visitedBefore a' b' a j \<longrightarrow> stripped env self g g' a' b') \<and>
        (\<forall>a' b'. visitedBefore a j a' b' \<longrightarrow> cell g' a' b' = cell g a' b')"
      using j(1) a B C by blast
    then have E: "\<exists>a b. j \<le> b \<and> b < m \<and> a < n \<and> failed env self g g' f a b \<and>
        (\<forall>a' b'. a' < n \<and> j \<le> b' \<and> visitedBefore a' b' a b \<longrightarrow> stripped env self g g' a' b') \<and>
        (\<forall>a' b'. visitedBefore a b a' b' \<longrightarrow> cell g' a' b' = cell g a' b')"
      by blast
    show ?thesis
      by (intro conjI allI impI) (rule rd, rule v, erule A, rule E)
  next
    case (Inr g1)
    with Suc.prems(5) j have ol: "outer_loop env self (Suc j) g1 = Inl (f, g')"
      by (subst (asm) outer_loop.simps) simp
    from inner_loop_Inr[OF refl Suc.prems(2) Suc.prems(3) j(1) previousPrice_0 Inr]
    have r1: "ready n m g1" and v1: "vecs g1 = vecs g"
      and fr1: "\<forall>a b. b \<noteq> j \<or> a < 0 \<longrightarrow> cell g1 a b = cell g a b"
      and st1: "\<forall>a. 0 \<le> a \<and> a < n \<longrightarrow> stripped env self g g1 a j"
      by blast+
    have "m - Suc j = k" using Suc.prems(1) by simp
    from Suc.IH[OF this r1 Suc.prems(3) Suc.prems(4) ol]
    have rd: "ready n m g'" and v: "vecs g' = vecs g1"
      and fr: "\<forall>a b. b < Suc j \<longrightarrow> cell g' a b = cell g1 a b"
      and ex: "\<exists>a b. Suc j \<le> b \<and> b < m \<and> a < n \<and> failed env self g1 g' f a b \<and>
        (\<forall>a' b'. a' < n \<and> Suc j \<le> b' \<and> visitedBefore a' b' a b \<longrightarrow> stripped env self g1 g' a' b') \<and>
        (\<forall>a' b'. visitedBefore a b a' b' \<longrightarrow> cell g' a' b' = cell g1 a' b')"
      by blast+
    from ex obtain a b where ab: "Suc j \<le> b" "b < m" "a < n" "failed env self g1 g' f a b"
      and st: "\<forall>a' b'. a' < n \<and> Suc j \<le> b' \<and> visitedBefore a' b' a b \<longrightarrow> stripped env self g1 g' a' b'"
      and af: "\<forall>a' b'. visitedBefore a b a' b' \<longrightarrow> cell g' a' b' = cell g1 a' b'"
      by blast
    have A: "cell g' x y = cell g x y" if "y < j" for x y
    proof -
      from that have "cell g' x y = cell g1 x y" using fr by simp
      moreover from that have "cell g1 x y = cell g x y" using fr1 by simp
      ultimately show ?thesis by simp
    qed
    have "cell g1 a b = cell g a b" using ab(1) fr1 by simp
    from failed_cong[OF v1 this] ab(4) have F: "failed env self g g' f a b" by simp
    have B: "stripped env self g g' a' b'" if "a' < n \<and> j \<le> b' \<and> visitedBefore a' b' a b" for a' b'
    proof (cases "b' = j")
      case True
      have "cell g' a' j = cell g1 a' j" using fr by simp
      moreover have "stripped env self g g1 a' j" using st1 that by simp
      ultimately show ?thesis using True stripped_later by simp
    next
      case False
      with that have "a' < n \<and> Suc j \<le> b' \<and> visitedBefore a' b' a b" by simp
      with st have "stripped env self g1 g' a' b'" by blast
      moreover have "cell g1 a' b' = cell g a' b'" using False fr1 by simp
      ultimately show ?thesis using stripped_cong[OF v1, of a' b'] by simp
    qed
    have C: "cell g' a' b' = cell g a' b'" if "visitedBefore a b a' b'" for a' b'
    proof -
      from that af have "cell g' a' b' = cell g1 a' b'" by blast
      moreover from that ab(1) have "b' \<noteq> j" by (auto simp: visitedBefore_def)
      then have "cell g1 a' b' = cell g a' b'" using fr1 by simp
      ultimately show ?thesis by simp
    qed
    have "j \<le> b \<and> b < m \<and> a < n \<and> failed env self g g' f a b \<and>
        (\<forall>a' b'. a' < n \<and> j \<le> b' \<and> visitedBefore a' b' a b \<longrightarrow> stripped env self g g' a' b') \<and>
        (\<forall>a' b'. visitedBefore a b a' b' \<longrightarrow> cell g' a' b' = cell g a' b')"
      using ab(1-3) F B C by auto
    then have E: "\<exists>a b. j \<le> b \<and> b < m \<and> a < n \<and> failed env self g g' f a b \<and>
        (\<forall>a' b'. a' < n \<and> j \<le> b' \<and> visitedBefore a' b' a b \<longrightarrow> stripped env self g g' a' b') \<and>
        (\<forall>a' b'. visitedBefore a b a' b' \<longrightarrow> cell g' a' b' = cell g a' b')"
      by blast
    have v': "vecs g' = vecs g" using v v1 by simp
    show ?thesis
      by (intro conjI allI impI) (rule rd, rule v', erule A, rule E)
  qed
qed


section \<open>A whole pass\<close>

text \<open>The first loop sets the per-period vectors and leaves the matrices of reals alone;
  the nested loops then strip every cell, or stop at the first cell whose inversion fails.\<close>

lemma length_resize [simp]: "length (resize xs n) = n"
  by (simp add: resize_def)

lemma period_step_props:
  assumes "grid_shape n m g" "i < n"
  shows "grid_shape n m (period_step env self i g)"
    "mats (period_step env self i g) = mats g"
    "periodSet env self (period_step env self i g) i"
    "\<And>a. a \<noteq> i \<Longrightarrow> periodSet env self (period_step env self i g) a = periodSet env self g a"
proof -
  have len: "i < length (optionletDates g)" "i < length (optionletAccrualPeriods g)"
    "i < length (optionletTimes g)" "i < length (atmOptionletRate g)" "i < length (capfloors g)"
    using assms by (simp_all add: grid_shape_def)
  show "grid_shape n m (period_step env self i g)"
    using assms(1) by (simp add: grid_shape_def period_step_def Let_def)
  show "mats (period_step env self i g) = mats g"
    by (simp add: mats_def period_step_def Let_def)
  show "periodSet env self (period_step env self i g) i"
    using len by (simp add: periodSet_def period_step_def Let_def periodDate_def)
  show "\<And>a. a \<noteq> i \<Longrightarrow> periodSet env self (period_step env self i g) a = periodSet env self g a"
    by (simp add: periodSet_def period_step_def Let_def)
qed

lemma period_loop_props:
  "n - i = k \<Longrightarrow> n = nOptionletTenors self \<Longrightarrow> grid_shape n m g \<Longrightarrow>
   grid_shape n m (period_loop env self i g) \<and>
   mats (period_loop env self i g) = mats g \<and>
   (\<forall>a. i \<le> a \<and> a < n \<longrightarrow> periodSet env self (period_loop env self i g) a) \<and>
   (\<forall>a. a < i \<longrightarrow> periodSet env self (period_loop env self i g) a = periodSet env self g a)"
proof (induction k arbitrary: i g)
  case 0
  then have "\<not> i < nOptionletTenors self" by simp
  then have "period_loop env self i g = g" by (simp add: period_loop.simps)
  with 0 show ?case by auto
next
  case (Suc k)
  then have i: "i < n" "i < nOptionletTenors self" by simp_all
  let ?g = "period_step env self i g"
  have e: "period_loop env self i g = period_loop env self (Suc i) ?g"
    using i(2) by (subst period_loop.simps) simp
  note s = period_step_props[OF Suc.prems(3) i(1), where env=env and self=self]
  have "n - Suc i = k" using Suc.prems(1) by simp
  from Suc.IH[OF this Suc.prems(2) s(1)]
  have sh: "grid_shape n m (period_loop env self (Suc i) ?g)"
    and ma: "mats (period_loop env self (Suc i) ?g) = mats ?g"
    and ps: "\<forall>a. Suc i \<le> a \<and> a < n \<longrightarrow> periodSet env self (period_loop env self (Suc i) ?g) a"
    and pk: "\<forall>a. a < Suc i \<longrightarrow>
        periodSet env self (period_loop env self (Suc i) ?g) a = periodSet env self ?g a"
    by blast+
  have A: "periodSet env self (period_loop env self (Suc i) ?g) a" if "i \<le> a \<and> a < n" for a
  proof (cases "a = i")
    case True
    with pk s(3) show ?thesis by simp
  next
    case False
    with that ps show ?thesis by simp
  qed
  have B: "periodSet env self (period_loop env self (Suc i) ?g) a = periodSet env self g a"
    if "a < i" for a
    using that pk s(4)[of a] by simp
  have ma': "mats (period_loop env self (Suc i) ?g) = mats g" using ma s(2) by simp
  show ?case unfolding e
    by (intro conjI allI impI) (rule sh, rule ma', erule A, erule B)
qed

lemma period_loop_ready:
  fixes env :: Pricing
  assumes "dims_ok self"
  defines "g1 \<equiv> period_loop env self 0 (grids self)"
  shows "ready (nOptionletTenors self) (nStrikes self) g1"
    "mats g1 = mats (grids self)"
    "\<And>a. a < nOptionletTenors self \<Longrightarrow> periodSet env self g1 a"
proof -
  from assms(1) have gs: "grid_shape (nOptionletTenors self) (nStrikes self) (grids self)"
    by (simp add: dims_ok_def)
  from period_loop_props[OF refl refl gs, where i=0 and env=env]
  have sh: "grid_shape (nOptionletTenors self) (nStrikes self) g1"
    and ma: "mats g1 = mats (grids self)"
    and ps: "\<forall>a. 0 \<le> a \<and> a < nOptionletTenors self \<longrightarrow> periodSet env self g1 a"
    unfolding g1_def by blast+
  show "mats g1 = mats (grids self)" by (rule ma)
  show p: "\<And>a. a < nOptionletTenors self \<Longrightarrow> periodSet env self g1 a" using ps by simp
  have "length (capfloors g1) = nOptionletTenors self" using sh by (simp add: grid_shape_def)
  moreover have "length (capfloors g1 ! a) = nStrikes self" if "a < nOptionletTenors self" for a
    using p[OF that] by (simp add: periodSet_def)
  ultimately have "is_matrix (nOptionletTenors self) (nStrikes self) (capfloors g1)"
    by (simp add: is_matrix_def list_all_length)
  with sh show "ready (nOptionletTenors self) (nStrikes self) g1" by (simp add: ready_def)
qed

lemma pass_Inr:
  assumes "dims_ok self" "performCalculations env self = Inr self'"
  defines "g1 \<equiv> period_loop env self 0 (grids self)"
  shows "self' = self\<lparr> grids := grids self' \<rparr>"
    "ready (nOptionletTenors self) (nStrikes self) (grids self')"
    "vecs (grids self') = vecs g1"
    "\<And>a b. a < nOptionletTenors self \<Longrightarrow> b < nStrikes self \<Longrightarrow>
       stripped env self g1 (grids self') a b"
proof -
  from assms(2) obtain g' where ol: "outer_loop env self 0 g1 = Inr g'"
    and s: "self' = self\<lparr> grids := g' \<rparr>"
    unfolding performCalculations_def g1_def by (auto split: sum.splits prod.splits)
  have g: "grids self' = g'" by (simp add: s)
  note r = period_loop_ready[OF assms(1), where env=env, folded g1_def]
  from outer_loop_Inr[OF refl r(1) refl refl ol]
  have rd: "ready (nOptionletTenors self) (nStrikes self) g'" and v: "vecs g' = vecs g1"
    and st: "\<forall>a b. 0 \<le> b \<and> b < nStrikes self \<and> a < nOptionletTenors self \<longrightarrow>
               stripped env self g1 g' a b"
    by blast+
  show "self' = self\<lparr> grids := grids self' \<rparr>" by (simp add: s)
  show "ready (nOptionletTenors self) (nStrikes self) (grids self')" unfolding g by (rule rd)
  show "vecs (grids self') = vecs g1" unfolding g by (rule v)
  show "\<And>a b. a < nOptionletTenors self \<Longrightarrow> b < nStrikes self \<Longrightarrow>
       stripped env self g1 (grids self') a b"
    unfolding g using st by simp
qed

lemma pass_Inl:
  assumes "dims_ok self" "performCalculations env self = Inl (f, self')"
  defines "g1 \<equiv> period_loop env self 0 (grids self)"
  shows "self' = self\<lparr> grids := grids self' \<rparr>"
    "ready (nOptionletTenors self) (nStrikes self) (grids self')"
    "vecs (grids self') = vecs g1"
    "\<exists>a b. b < nStrikes self \<and> a < nOptionletTenors self \<and>
        failed env self g1 (grids self') f a b \<and>
        (\<forall>a' b'. a' < nOptionletTenors self \<and> visitedBefore a' b' a b \<longrightarrow>
            stripped env self g1 (grids self') a' b') \<and>
        (\<forall>a' b'. visitedBefore a b a' b' \<longrightarrow> cell (grids self') a' b' = cell g1 a' b')"
proof -
  from assms(2) obtain g' where ol: "outer_loop env self 0 g1 = Inl (f, g')"
    and s: "self' = self\<lparr> grids := g' \<rparr>"
    unfolding performCalculations_def g1_def by (auto split: sum.splits prod.splits)
  have g: "grids self' = g'" by (simp add: s)
  note r = period_loop_ready[OF assms(1), where env=env, folded g1_def]
  from outer_loop_Inl[OF refl r(1) refl refl ol]
  have rd: "ready (nOptionletTenors self) (nStrikes self) g'" and v: "vecs g' = vecs g1"
    and ex: "\<exists>a b. 0 \<le> b \<and> b < nStrikes self \<and> a < nOptionletTenors self \<and>
        failed env self g1 g' f a b \<and>
        (\<forall>a' b'. a' < nOptionletTenors self \<and> 0 \<le> b' \<and> visitedBefore a' b' a b \<longrightarrow>
            stripped env self g1 g' a' b') \<and>
        (\<forall>a' b'. visitedBefore a b a' b' \<longrightarrow> cell g' a' b' = cell g1 a' b')"
    by blast+
  show "self' = self\<lparr> grids := grids self' \<rparr>" by (simp add: s)
  show "ready (nOptionletTenors self) (nStrikes self) (grids self')" unfolding g by (rule rd)
  show "vecs (grids self') = vecs g1" unfolding g by (rule v)
  show "\<exists>a b. b < nStrikes self \<and> a < nOptionletTenors self \<and>
        failed env self g1 (grids self') f a b \<and>
        (\<forall>a' b'. a' < nOptionletTenors self \<and> visitedBefore a' b' a b \<longrightarrow>
            stripped env self g1 (grids self') a' b') \<and>
        (\<forall>a' b'. visitedBefore a b a' b' \<longrightarrow> cell (grids self') a' b' = cell g1 a' b')"
    unfolding g using ex by simp
qed


lemma period_facts:
  assumes "vecs g' = vecs g1" "periodSet env self g1 i"
  shows "optionletDates g' ! i = periodDate env self i"
    "optionletAccrualPeriods g' ! i = 1 / 2"
    "optionletTimes g' ! i =
       yearFraction (surface self) (referenceDate (surface self)) (optionletDates g' ! i)"
    "atmOptionletRate g' ! i = forecastFixing (index self) (optionletDates g' ! i)"
proof -
  from assms(1) have "atmOptionletRate g' = atmOptionletRate g1"
    "optionletDates g' = optionletDates g1" "optionletTimes g' = optionletTimes g1"
    "optionletAccrualPeriods g' = optionletAccrualPeriods g1"
    by (simp_all add: vecs_def)
  with assms(2) show "optionletDates g' ! i = periodDate env self i"
    "optionletAccrualPeriods g' ! i = 1 / 2"
    "optionletTimes g' ! i =
       yearFraction (surface self) (referenceDate (surface self)) (optionletDates g' ! i)"
    "atmOptionletRate g' ! i = forecastFixing (index self) (optionletDates g' ! i)"
    by (simp_all add: periodSet_def)
qed

lemma stripped_facts:
  assumes "stripped env self g1 g' i j" "vecs g' = vecs g1" "mats g1 = mats g0"
  shows "capfloors g' ! i ! j = Some (cellInstrument self i j)"
    "capfloorVols g' ! i ! j = cf_vol (cellInstrument self i j)"
    "capfloorPrices g' ! i ! j = cellPrice env self i j"
    "optionletPrices g' ! i ! j = cellPrice env self i j - previousPrice env self i j"
    "blackFormulaImpliedStdDev env
       (if strikes (surface self) ! j < switchStrikes self ! i then Put else Call)
       (strikes (surface self) ! j) (atmOptionletRate g' ! i) (optionletPrices g' ! i ! j)
       (optionletAccrualPeriods g' ! i *
          discount env (cellInstrument self i j) (optionletDates g' ! i))
       (optionletStDevs g0 ! i ! j) = Inr (optionletStDevs g' ! i ! j)"
    "optionletVols g' ! i ! j = optionletStDevs g' ! i ! j / sqrt (optionletTimes g' ! i)"
proof -
  from assms(2) have v: "atmOptionletRate g1 = atmOptionletRate g'"
    "optionletDates g1 = optionletDates g'" "optionletTimes g1 = optionletTimes g'"
    "optionletAccrualPeriods g1 = optionletAccrualPeriods g'"
    by (simp_all add: vecs_def)
  from assms(3) have m: "optionletStDevs g1 = optionletStDevs g0" by (simp add: mats_def)
  from assms(1) obtain sd where sd: "cellSolve env self g1 i j = Inr sd"
    and c: "cell g' i j = strippedCell env self g1 i j sd"
    by (auto simp: stripped_def split: sum.splits)
  from c show 1: "capfloors g' ! i ! j = Some (cellInstrument self i j)"
    "capfloorVols g' ! i ! j = cf_vol (cellInstrument self i j)"
    "capfloorPrices g' ! i ! j = cellPrice env self i j"
    and 4: "optionletPrices g' ! i ! j = cellPrice env self i j - previousPrice env self i j"
    by (simp_all add: cell_def strippedCell_def)
  from c have 5: "optionletStDevs g' ! i ! j = sd"
    and 6: "optionletVols g' ! i ! j = sd / sqrt (optionletTimes g1 ! i)"
    by (simp_all add: cell_def strippedCell_def)
  from 5 6 show "optionletVols g' ! i ! j =
      optionletStDevs g' ! i ! j / sqrt (optionletTimes g' ! i)"
    by (simp add: v)
  from sd show "blackFormulaImpliedStdDev env
       (if strikes (surface self) ! j < switchStrikes self ! i then Put else Call)
       (strikes (surface self) ! j) (atmOptionletRate g' ! i) (optionletPrices g' ! i ! j)
       (optionletAccrualPeriods g' ! i *
          discount env (cellInstrument self i j) (optionletDates g' ! i))
       (optionletStDevs g0 ! i ! j) = Inr (optionletStDevs g' ! i ! j)"
    unfolding cellSolve_def cellAnnuity_def v m 4 5 .
qed

lemma failed_facts:
  assumes "failed env self g1 g' f i j" "vecs g' = vecs g1" "mats g1 = mats g0"
  shows "capfloors g' ! i ! j = Some (cellInstrument self i j)"
    "capfloorVols g' ! i ! j = cf_vol (cellInstrument self i j)"
    "capfloorPrices g' ! i ! j = cellPrice env self i j"
    "optionletPrices g' ! i ! j = cellPrice env self i j - previousPrice env self i j"
    "blackFormulaImpliedStdDev env
       (if strikes (surface self) ! j < switchStrikes self ! i then Put else Call)
       (strikes (surface self) ! j) (atmOptionletRate g' ! i) (optionletPrices g' ! i ! j)
       (optionletAccrualPeriods g' ! i *
          discount env (cellInstrument self i j) (optionletDates g' ! i))
       (optionletStDevs g0 ! i ! j) = Inl (f_message f)"
    "f = \<lparr> f_date = optionletDates g' ! i,
           f_type = (if strikes (surface self) ! j < switchStrikes self ! i then Put else Call),
           f_strike = strikes (surface self) ! j,
           f_atm = atmOptionletRate g' ! i,
           f_price = optionletPrices g' ! i ! j,
           f_annuity = optionletAccrualPeriods g' ! i *
              discount env (cellInstrument self i j) (optionletDates g' ! i),
           f_message = f_message f \<rparr>"
    "optionletStDevs g' ! i ! j = optionletStDevs g0 ! i ! j"
    "optionletVols g' ! i ! j = optionletVols g0 ! i ! j"
proof -
  from assms(2) have v: "atmOptionletRate g1 = atmOptionletRate g'"
    "optionletDates g1 = optionletDates g'" "optionletTimes g1 = optionletTimes g'"
    "optionletAccrualPeriods g1 = optionletAccrualPeriods g'"
    by (simp_all add: vecs_def)
  from assms(3) have m: "optionletStDevs g1 = optionletStDevs g0"
    "optionletVols g1 = optionletVols g0" by (simp_all add: mats_def)
  from assms(1) obtain what where w: "cellSolve env self g1 i j = Inl what"
    and f: "f = cellFailure env self g1 i j what"
    and c: "cell g' i j = failedCell env self g1 i j"
    by (auto simp: failed_def split: sum.splits)
  from c show 1: "capfloors g' ! i ! j = Some (cellInstrument self i j)"
    "capfloorVols g' ! i ! j = cf_vol (cellInstrument self i j)"
    "capfloorPrices g' ! i ! j = cellPrice env self i j"
    and 4: "optionletPrices g' ! i ! j = cellPrice env self i j - previousPrice env self i j"
    by (simp_all add: cell_def failedCell_def)
  from c show "optionletStDevs g' ! i ! j = optionletStDevs g0 ! i ! j"
    "optionletVols g' ! i ! j = optionletVols g0 ! i ! j"
    by (simp_all add: cell_def failedCell_def m)
  have fm: "f_message f = what" by (simp add: f cellFailure_def)
  from w show "blackFormulaImpliedStdDev env
       (if strikes (surface self) ! j < switchStrikes self ! i then Put else Call)
       (strikes (surface self) ! j) (atmOptionletRate g' ! i) (optionletPrices g' ! i ! j)
       (optionletAccrualPeriods g' ! i *
          discount env (cellInstrument self i j) (optionletDates g' ! i))
       (optionletStDevs g0 ! i ! j) = Inl (f_message f)"
    unfolding cellSolve_def cellAnnuity_def v m 4 fm .
  show "f = \<lparr> f_date = optionletDates g' ! i,
           f_type = (if strikes (surface self) ! j < switchStrikes self ! i then Put else Call),
           f_strike = strikes (surface self) ! j,
           f_atm = atmOptionletRate g' ! i,
           f_price = optionletPrices g' ! i ! j,
           f_annuity = optionletAccrualPeriods g' ! i *
              discount env (cellInstrument self i j) (optionletDates g' ! i),
           f_message = f_message f \<rparr>"
    unfolding 4 by (simp add: f cellFailure_def cellAnnuity_def v)
qed

lemma untouched_facts:
  assumes "cell g' i j = cell g1 i j" "mats g1 = mats g0"
  shows "capfloorVols g' ! i ! j = capfloorVols g0 ! i ! j"
    "capfloorPrices g' ! i ! j = capfloorPrices g0 ! i ! j"
    "optionletPrices g' ! i ! j = optionletPrices g0 ! i ! j"
    "optionletStDevs g' ! i ! j = optionletStDevs g0 ! i ! j"
    "optionletVols g' ! i ! j = optionletVols g0 ! i ! j"
proof -
  from assms(2) have "capfloorVols g1 = capfloorVols g0" "capfloorPrices g1 = capfloorPrices g0"
    "optionletPrices g1 = optionletPrices g0" "optionletStDevs g1 = optionletStDevs g0"
    "optionletVols g1 = optionletVols g0"
    by (simp_all add: mats_def)
  with assms(1) show "capfloorVols g' ! i ! j = capfloorVols g0 ! i ! j"
    "capfloorPrices g' ! i ! j = capfloorPrices g0 ! i ! j"
    "optionletPrices g' ! i ! j = optionletPrices g0 ! i ! j"
    "optionletStDevs g' ! i ! j = optionletStDevs g0 ! i ! j"
    "optionletVols g' ! i ! j = optionletVols g0 ! i ! j"
    by (simp_all add: cell_def)
qed


section \<open>Claims about the pass\<close>

lemmas run_simps = performCalculations_def outer_loop.simps inner_loop.simps period_loop.simps
  strip_cell_def period_step_def put_def resize_def initialGrids_def Matrix_new_def
  Matrix_fill_def small_stripper_def small_surface_def ex_surface_def ex_index_def
  ex_pricing_def bad_pricing_def Let_def Months_def Years_def numeral_2_eq_2

lemma small_new: "newOptionletStripper small_surface ex_index [] = Some (Inr small_stripper)"
proof -
  have "optionTenors small_surface \<noteq> []"
    "tenor ex_index + tenor ex_index \<le> last (optionTenors small_surface)"
    "0 < tenor ex_index"
    by (simp_all add: small_surface_def ex_surface_def ex_index_def Months_def)
  from new_eq[OF this, of "[]"] show ?thesis
    by (simp add: small_surface_def ex_surface_def ex_index_def small_stripper_def Months_def
        normalizeSwitchStrikes_def upt_conv_Cons numeral_2_eq_2)
qed

lemma small_dims: "dims_ok small_stripper"
  by (simp add: dims_ok_def grid_shape_def is_matrix_def small_stripper_def small_surface_def
      ex_surface_def initialGrids_def Matrix_new_def Matrix_fill_def numeral_2_eq_2)

lemma small_pass: "performCalculations ex_pricing small_stripper = Inr small_result"
  by (simp add: run_simps small_result_def)

lemma bad_pass: "performCalculations bad_pricing small_stripper = Inl (bad_failure, bad_result)"
  by (simp add: run_simps bad_result_def bad_failure_def)

lemma dims_ok_new:
  assumes "newOptionletStripper surf idx given = Some (Inr obj)"
  shows "dims_ok obj"
  using new_Inr_fields[OF assms]
  by (simp add: dims_ok_def grid_shape_def is_matrix_def initialGrids_def Matrix_new_def
      Matrix_fill_def list_all_length)

lemma dims_ok_pass:
  assumes "dims_ok self"
  shows "performCalculations env self = Inr self' \<Longrightarrow> dims_ok self'"
    "performCalculations env self = Inl (f, self') \<Longrightarrow> dims_ok self'"
proof -
  { fix g' assume s: "self' = self\<lparr> grids := g' \<rparr>"
      and r: "ready (nOptionletTenors self) (nStrikes self) g'"
    have "dims_ok self'" using assms r by (simp add: s dims_ok_def ready_def) }
  note * = this
  show "performCalculations env self = Inr self' \<Longrightarrow> dims_ok self'"
    using pass_Inr(1,2)[OF assms] * by blast
  show "performCalculations env self = Inl (f, self') \<Longrightarrow> dims_ok self'"
    using pass_Inl(1,2)[OF assms] * by blast
qed

text \<open>
  C6. After a pass that returns normally, every cell \<open>(i, j)\<close> of the grid holds
  \<open>optionletVols[i][j] = optionletStDevs[i][j] / sqrt(optionletTimes[i])\<close>.
\<close>

theorem optionletVols_annualized:
  assumes "dims_ok self" "performCalculations env self = Inr self'"
    and "i < nOptionletTenors self" "j < nStrikes self"
  shows "optionletVols (grids self') ! i ! j =
         optionletStDevs (grids self') ! i ! j / sqrt (optionletTimes (grids self') ! i)"
  using stripped_facts(6)[OF pass_Inr(4)[OF assms] pass_Inr(3)[OF assms(1,2)]
      period_loop_ready(2)[OF assms(1)]] .

text \<open>
  C6, witness: the second period of the first strike in the example pass, with standard
  deviation 0.20 and time one half.
\<close>

theorem optionletVols_annualized_witness:
  "dims_ok small_stripper \<and> performCalculations ex_pricing small_stripper = Inr small_result \<and>
   1 < nOptionletTenors small_stripper \<and> 0 < nStrikes small_stripper \<and>
   optionletVols (grids small_result) ! 1 ! 0 =
     optionletStDevs (grids small_result) ! 1 ! 0 / sqrt (optionletTimes (grids small_result) ! 1) \<and>
   optionletStDevs (grids small_result) ! 1 ! 0 = 20 / 100 \<and>
   optionletTimes (grids small_result) ! 1 = 1 / 2"
proof -
  have h: "1 < nOptionletTenors small_stripper" "0 < nStrikes small_stripper"
    by (simp_all add: small_stripper_def)
  from optionletVols_annualized[OF small_dims small_pass h] small_dims small_pass h
  show ?thesis by (simp add: small_result_def)
qed

text \<open>
  C4. After a pass that returns normally, the instrument kept for period \<open>i\<close> and strike
  \<open>j\<close> is a floor exactly when the strike is below \<open>switchStrikes[i]\<close> and a cap otherwise,
  and the standard deviation of the cell is the solver's answer for a put when the instrument
  is a floor and for a call when it is a cap.
\<close>

theorem stripping_side:
  assumes "dims_ok self" "performCalculations env self = Inr self'"
    and "i < nOptionletTenors self" "j < nStrikes self"
  shows "\<exists>cf. capfloors (grids self') ! i ! j = Some cf \<and>
      cf_type cf = (if strikes (surface self) ! j < switchStrikes self ! i then Floor else Cap) \<and>
      cf_strike cf = strikes (surface self) ! j \<and>
      blackFormulaImpliedStdDev env (if cf_type cf = Floor then Put else Call)
        (strikes (surface self) ! j) (atmOptionletRate (grids self') ! i)
        (optionletPrices (grids self') ! i ! j)
        (optionletAccrualPeriods (grids self') ! i *
           discount env cf (optionletDates (grids self') ! i))
        (optionletStDevs (grids self) ! i ! j)
      = Inr (optionletStDevs (grids self') ! i ! j)"
proof -
  note f = stripped_facts[OF pass_Inr(4)[OF assms] pass_Inr(3)[OF assms(1,2)]
      period_loop_ready(2)[OF assms(1)]]
  have t: "(if cf_type (cellInstrument self i j) = Floor then Put else Call) =
      (if strikes (surface self) ! j < switchStrikes self ! i then Put else Call)"
    by (simp add: cellInstrument_def)
  have "capfloors (grids self') ! i ! j = Some (cellInstrument self i j) \<and>
      cf_type (cellInstrument self i j) =
        (if strikes (surface self) ! j < switchStrikes self ! i then Floor else Cap) \<and>
      cf_strike (cellInstrument self i j) = strikes (surface self) ! j \<and>
      blackFormulaImpliedStdDev env (if cf_type (cellInstrument self i j) = Floor then Put else Call)
        (strikes (surface self) ! j) (atmOptionletRate (grids self') ! i)
        (optionletPrices (grids self') ! i ! j)
        (optionletAccrualPeriods (grids self') ! i *
           discount env (cellInstrument self i j) (optionletDates (grids self') ! i))
        (optionletStDevs (grids self) ! i ! j)
      = Inr (optionletStDevs (grids self') ! i ! j)"
    unfolding t using f(1,5) by (simp add: cellInstrument_def)
  then show ?thesis ..
qed

text \<open>
  C4, witness: strike 0.03 is below the switch strike 0.04, so the cell is a floor, inverted
  as a put.
\<close>

theorem stripping_side_witness:
  "dims_ok small_stripper \<and> performCalculations ex_pricing small_stripper = Inr small_result \<and>
   1 < nOptionletTenors small_stripper \<and> 0 < nStrikes small_stripper \<and>
   strikes (surface small_stripper) ! 0 < switchStrikes small_stripper ! 1 \<and>
   (\<exists>cf. capfloors (grids small_result) ! 1 ! 0 = Some cf \<and> cf_type cf = Floor \<and>
      blackFormulaImpliedStdDev ex_pricing Put
        (strikes (surface small_stripper) ! 0) (atmOptionletRate (grids small_result) ! 1)
        (optionletPrices (grids small_result) ! 1 ! 0)
        (optionletAccrualPeriods (grids small_result) ! 1 *
           discount ex_pricing cf (optionletDates (grids small_result) ! 1))
        (optionletStDevs (grids small_stripper) ! 1 ! 0)
      = Inr (optionletStDevs (grids small_result) ! 1 ! 0))"
proof -
  have h: "1 < nOptionletTenors small_stripper" "0 < nStrikes small_stripper"
    by (simp_all add: small_stripper_def)
  have k: "strikes (surface small_stripper) ! 0 < switchStrikes small_stripper ! 1"
    by (simp add: small_stripper_def small_surface_def ex_surface_def)
  from stripping_side[OF small_dims small_pass h] k
  have "\<exists>cf. capfloors (grids small_result) ! 1 ! 0 = Some cf \<and> cf_type cf = Floor \<and>
      blackFormulaImpliedStdDev ex_pricing Put
        (strikes (surface small_stripper) ! 0) (atmOptionletRate (grids small_result) ! 1)
        (optionletPrices (grids small_result) ! 1 ! 0)
        (optionletAccrualPeriods (grids small_result) ! 1 *
           discount ex_pricing cf (optionletDates (grids small_result) ! 1))
        (optionletStDevs (grids small_stripper) ! 1 ! 0)
      = Inr (optionletStDevs (grids small_result) ! 1 ! 0)"
    by auto
  with small_dims small_pass h k show ?thesis by blast
qed

text \<open>
  Rounding to binary64, evaluated: a number between \<open>2^e\<close> and \<open>2^(e+1)\<close> is rounded
  to a multiple of \<open>2^(e-52)\<close>.
\<close>

lemma pow2_powr: "pow2 k = 2 powr (real_of_int k)"
  by (simp add: pow2_def powr_real_of_int inverse_eq_divide)

lemma binary64_eq:
  assumes "x \<noteq> 0" "pow2 e \<le> \<bar>x\<bar>" "\<bar>x\<bar> < pow2 (e + 1)"
  shows "binary64 x = of_int (round_to_even (x / pow2 (e - 52))) * pow2 (e - 52)"
proof -
  have "\<lfloor>log 2 \<bar>x\<bar>\<rfloor> = e"
    using assms by (subst floor_log_eq_powr_iff) (simp_all add: pow2_powr)
  with assms(1) show ?thesis by (simp add: binary64_def)
qed










text \<open>A number halfway between two doubles goes to the one with the even significand.\<close>

lemma b_tie_down: "binary64 (1 + 1 / 2 ^ 53) = 1"
  by (subst binary64_eq[where e = "0"]) (simp_all add: pow2_def round_to_even_def)

lemma b_tie_up: "binary64 (1 + 3 / 2 ^ 53) = 1 + 1 / 2 ^ 51"
  by (subst binary64_eq[where e = "0"]) (simp_all add: pow2_def round_to_even_def)



text \<open>
  A cell of the pass in double precision: the optionlet price is the rounded difference of the
  cumulative price just stored and the previous one.
\<close>

lemma strip_cell_double_price:
  assumes "ready n m g" "i < n" "j < m"
    and "strip_cell_double env self j i p g = Inr (p', g')"
  shows "capfloorPrices g' ! i ! j = NPV env (cellInstrument self i j)"
    "optionletPrices g' ! i ! j = binary64 (capfloorPrices g' ! i ! j - p)"
    "p' = capfloorPrices g' ! i ! j"
proof -
  note len = ready_lengths[OF assms(1-3)]
  define G4 where "G4 =
       g\<lparr> capfloorVols := put (capfloorVols g) i j (cf_vol (cellInstrument self i j)),
          capfloors := put (capfloors g) i j (Some (cellInstrument self i j)),
          capfloorPrices := put (capfloorPrices g) i j (NPV env (cellInstrument self i j)),
          optionletPrices := put (optionletPrices g) i j
             (binary64 (NPV env (cellInstrument self i j) - p)) \<rparr>"
  define G6 where "G6 sd =
       G4\<lparr> optionletStDevs := put (optionletStDevs g) i j sd,
           optionletVols := put (optionletVols g) i j
             (binary64 (sd / binary64 (sqrt (optionletTimes g ! i)))) \<rparr>" for sd
  define S where "S = blackFormulaImpliedStdDev env
      (if strikes (surface self) ! j < switchStrikes self ! i then Put else Call)
      (strikes (surface self) ! j) (atmOptionletRate g ! i)
      (binary64 (NPV env (cellInstrument self i j) - p))
      (binary64 (optionletAccrualPeriods g ! i *
         discount env (cellInstrument self i j) (optionletDates g ! i)))
      (optionletStDevs g ! i ! j)"
  have e: "strip_cell_double env self j i p g =
      (case S of
         Inl what \<Rightarrow> Inl (\<lparr> f_date = optionletDates g ! i,
            f_type = (if strikes (surface self) ! j < switchStrikes self ! i then Put else Call),
            f_strike = strikes (surface self) ! j, f_atm = atmOptionletRate g ! i,
            f_price = binary64 (NPV env (cellInstrument self i j) - p),
            f_annuity = binary64 (optionletAccrualPeriods g ! i *
               discount env (cellInstrument self i j) (optionletDates g ! i)),
            f_message = what \<rparr>, G4)
       | Inr sd \<Rightarrow> Inr (NPV env (cellInstrument self i j), G6 sd))"
    using len
    by (simp add: strip_cell_double_def Let_def put_nth_eq cellInstrument_def G4_def G6_def
        S_def split: sum.splits)
  obtain sd where p': "p' = NPV env (cellInstrument self i j)" and g': "g' = G6 sd"
  proof (cases S)
    case (Inl what)
    with assms(4) show ?thesis by (simp add: e)
  next
    case (Inr sd)
    with assms(4) that[of sd] show ?thesis by (simp add: e)
  qed
  show c: "capfloorPrices g' ! i ! j = NPV env (cellInstrument self i j)"
    using len by (simp add: g' G6_def G4_def put_nth_eq)
  show "optionletPrices g' ! i ! j = binary64 (capfloorPrices g' ! i ! j - p)"
    unfolding c using len by (simp add: g' G6_def G4_def put_nth_eq)
  show "p' = capfloorPrices g' ! i ! j" using p' c by simp
qed





text \<open>
  C10. After a pass that returns normally the accrual period of every period is the constant
  one half, whatever the index, the day counter and the dates, and the annuity handed to the
  solver for a cell is one half times the discount factor of the cell's instrument at the
  period's date.
\<close>

theorem accrual_hard_coded:
  assumes "dims_ok self" "performCalculations env self = Inr self'"
    and "i < nOptionletTenors self" "j < nStrikes self"
  shows "optionletAccrualPeriods (grids self') ! i = 1 / 2 \<and>
    (\<exists>cf. capfloors (grids self') ! i ! j = Some cf \<and>
      blackFormulaImpliedStdDev env
        (if strikes (surface self) ! j < switchStrikes self ! i then Put else Call)
        (strikes (surface self) ! j) (atmOptionletRate (grids self') ! i)
        (optionletPrices (grids self') ! i ! j)
        (1 / 2 * discount env cf (optionletDates (grids self') ! i))
        (optionletStDevs (grids self) ! i ! j)
      = Inr (optionletStDevs (grids self') ! i ! j))"
proof -
  note f = stripped_facts[OF pass_Inr(4)[OF assms] pass_Inr(3)[OF assms(1,2)]
      period_loop_ready(2)[OF assms(1)]]
  note p = period_facts[OF pass_Inr(3)[OF assms(1,2)] period_loop_ready(3)[OF assms(1,3)]]
  from f(1,5) p(2) show ?thesis by simp
qed

text \<open>
  C10, witness: a three-month index, whose accrual period is recorded as one half all the same.
\<close>

theorem accrual_hard_coded_witness:
  "dims_ok small_stripper \<and> performCalculations ex_pricing small_stripper = Inr small_result \<and>
   1 < nOptionletTenors small_stripper \<and> 1 < nStrikes small_stripper \<and>
   optionletAccrualPeriods (grids small_result) ! 1 = 1 / 2 \<and>
   tenor (index small_stripper) = Months 3 \<and>
   (\<exists>cf. capfloors (grids small_result) ! 1 ! 1 = Some cf \<and>
      blackFormulaImpliedStdDev ex_pricing
        (if strikes (surface small_stripper) ! 1 < switchStrikes small_stripper ! 1
         then Put else Call)
        (strikes (surface small_stripper) ! 1) (atmOptionletRate (grids small_result) ! 1)
        (optionletPrices (grids small_result) ! 1 ! 1)
        (1 / 2 * discount ex_pricing cf (optionletDates (grids small_result) ! 1))
        (optionletStDevs (grids small_stripper) ! 1 ! 1)
      = Inr (optionletStDevs (grids small_result) ! 1 ! 1))"
proof -
  have h: "1 < nOptionletTenors small_stripper" "1 < nStrikes small_stripper"
    by (simp_all add: small_stripper_def)
  have t: "tenor (index small_stripper) = Months 3"
    by (simp add: small_stripper_def ex_index_def)
  from accrual_hard_coded[OF small_dims small_pass h] small_dims small_pass h t
  show ?thesis by blast
qed

text \<open>
  The solver call read off the grids after the pass is the call the pass made for the cell.
\<close>

lemma solverCall_stripped:
  assumes "stripped env self g1 g' i j" "vecs g' = vecs g1" "mats g1 = mats g0"
  shows "solverCall env self g' i j (optionletStDevs g0 ! i ! j) = Inr (optionletStDevs g' ! i ! j)"
  using stripped_facts(1,5)[OF assms] by (simp add: solverCall_def)

lemma solverCall_failed:
  assumes "failed env self g1 g' f i j" "vecs g' = vecs g1" "mats g1 = mats g0"
  shows "solverCall env self g' i j (optionletStDevs g0 ! i ! j) = Inl (f_message f)"
    "f = \<lparr> f_date = optionletDates g' ! i,
           f_type = (if strikes (surface self) ! j < switchStrikes self ! i then Put else Call),
           f_strike = strikes (surface self) ! j,
           f_atm = atmOptionletRate g' ! i,
           f_price = optionletPrices g' ! i ! j,
           f_annuity = optionletAccrualPeriods g' ! i *
              discount env (the (capfloors g' ! i ! j)) (optionletDates g' ! i),
           f_message = f_message f \<rparr>"
proof -
  note f = failed_facts[OF assms]
  show "solverCall env self g' i j (optionletStDevs g0 ! i ! j) = Inl (f_message f)"
    using f(1,5) by (simp add: solverCall_def)
  show "f = \<lparr> f_date = optionletDates g' ! i,
           f_type = (if strikes (surface self) ! j < switchStrikes self ! i then Put else Call),
           f_strike = strikes (surface self) ! j,
           f_atm = atmOptionletRate g' ! i,
           f_price = optionletPrices g' ! i ! j,
           f_annuity = optionletAccrualPeriods g' ! i *
              discount env (the (capfloors g' ! i ! j)) (optionletDates g' ! i),
           f_message = f_message f \<rparr>"
    using f(6) by (simp add: f(1))
qed

lemma visited_cases:
  "visitedBefore i' j' i j \<or> (i' = i \<and> j' = j) \<or> visitedBefore i j i' j'"
  by (auto simp: visitedBefore_def)

text \<open>
  C8. A pass that fails does so at one cell \<open>(i, j)\<close>: the solver call of that cell
  failed, and the failure reported carries the period's date, the option type, the strike, the
  forward rate, the optionlet price, the annuity and the solver's message. Nothing is recovered:
  the standard deviation and the volatility of the cell are left as they were, and no cell that
  comes after it in the order of the loops is written. Conversely, whenever the solver fails on
  the call that the pass makes for some cell, the pass as a whole fails.
\<close>

theorem inversion_failure_aborts:
  assumes "dims_ok self"
  shows "(performCalculations env self = Inl (f, self') \<longrightarrow>
           (\<exists>i j. i < nOptionletTenors self \<and> j < nStrikes self \<and>
              solverCall env self (grids self') i j (optionletStDevs (grids self) ! i ! j)
                = Inl (f_message f) \<and>
              f_date f = optionletDates (grids self') ! i \<and>
              f_type f = (if strikes (surface self) ! j < switchStrikes self ! i
                          then Put else Call) \<and>
              f_strike f = strikes (surface self) ! j \<and>
              f_atm f = atmOptionletRate (grids self') ! i \<and>
              f_price f = optionletPrices (grids self') ! i ! j \<and>
              f_annuity f = optionletAccrualPeriods (grids self') ! i *
                discount env (the (capfloors (grids self') ! i ! j))
                  (optionletDates (grids self') ! i) \<and>
              optionletStDevs (grids self') ! i ! j = optionletStDevs (grids self) ! i ! j \<and>
              optionletVols (grids self') ! i ! j = optionletVols (grids self) ! i ! j \<and>
              (\<forall>i' j'. visitedBefore i j i' j' \<longrightarrow>
                 capfloorVols (grids self') ! i' ! j' = capfloorVols (grids self) ! i' ! j' \<and>
                 capfloorPrices (grids self') ! i' ! j' = capfloorPrices (grids self) ! i' ! j' \<and>
                 optionletPrices (grids self') ! i' ! j' = optionletPrices (grids self) ! i' ! j' \<and>
                 optionletStDevs (grids self') ! i' ! j' = optionletStDevs (grids self) ! i' ! j' \<and>
                 optionletVols (grids self') ! i' ! j' = optionletVols (grids self) ! i' ! j')))
       \<and> (a < nOptionletTenors self \<and> b < nStrikes self \<and>
            blackFormulaImpliedStdDev env
              (if strikes (surface self) ! b < switchStrikes self ! a then Put else Call)
              (strikes (surface self) ! b)
              (forecastFixing (index self) (periodDate env self a))
              (cellPrice env self a b - previousPrice env self a b)
              (1 / 2 * discount env (cellInstrument self a b) (periodDate env self a))
              (optionletStDevs (grids self) ! a ! b) = Inl what
           \<longrightarrow> (\<exists>e s. performCalculations env self = Inl (e, s)))"
proof (intro conjI impI)
  assume p: "performCalculations env self = Inl (f, self')"
  note m = period_loop_ready(2)[OF assms, of env]
  note v = pass_Inl(3)[OF assms p]
  from pass_Inl(4)[OF assms p] obtain i j where ij: "j < nStrikes self" "i < nOptionletTenors self"
    and fl: "failed env self (period_loop env self 0 (grids self)) (grids self') f i j"
    and af: "\<forall>a' b'. visitedBefore i j a' b' \<longrightarrow>
        cell (grids self') a' b' = cell (period_loop env self 0 (grids self)) a' b'"
    by blast
  note s = solverCall_failed[OF fl v m]
  note ff = failed_facts(7,8)[OF fl v m]
  have A: "capfloorVols (grids self') ! i' ! j' = capfloorVols (grids self) ! i' ! j' \<and>
        capfloorPrices (grids self') ! i' ! j' = capfloorPrices (grids self) ! i' ! j' \<and>
        optionletPrices (grids self') ! i' ! j' = optionletPrices (grids self) ! i' ! j' \<and>
        optionletStDevs (grids self') ! i' ! j' = optionletStDevs (grids self) ! i' ! j' \<and>
        optionletVols (grids self') ! i' ! j' = optionletVols (grids self) ! i' ! j'"
    if "visitedBefore i j i' j'" for i' j'
  proof -
    from that af have "cell (grids self') i' j' = cell (period_loop env self 0 (grids self)) i' j'"
      by blast
    from untouched_facts[OF this m] show ?thesis by blast
  qed
  have F: "f_date f = optionletDates (grids self') ! i"
    "f_type f = (if strikes (surface self) ! j < switchStrikes self ! i then Put else Call)"
    "f_strike f = strikes (surface self) ! j"
    "f_atm f = atmOptionletRate (grids self') ! i"
    "f_price f = optionletPrices (grids self') ! i ! j"
    "f_annuity f = optionletAccrualPeriods (grids self') ! i *
                discount env (the (capfloors (grids self') ! i ! j))
                  (optionletDates (grids self') ! i)"
    by (subst s(2), simp)+
  show "\<exists>i j. i < nOptionletTenors self \<and> j < nStrikes self \<and>
              solverCall env self (grids self') i j (optionletStDevs (grids self) ! i ! j)
                = Inl (f_message f) \<and>
              f_date f = optionletDates (grids self') ! i \<and>
              f_type f = (if strikes (surface self) ! j < switchStrikes self ! i
                          then Put else Call) \<and>
              f_strike f = strikes (surface self) ! j \<and>
              f_atm f = atmOptionletRate (grids self') ! i \<and>
              f_price f = optionletPrices (grids self') ! i ! j \<and>
              f_annuity f = optionletAccrualPeriods (grids self') ! i *
                discount env (the (capfloors (grids self') ! i ! j))
                  (optionletDates (grids self') ! i) \<and>
              optionletStDevs (grids self') ! i ! j = optionletStDevs (grids self) ! i ! j \<and>
              optionletVols (grids self') ! i ! j = optionletVols (grids self) ! i ! j \<and>
              (\<forall>i' j'. visitedBefore i j i' j' \<longrightarrow>
                 capfloorVols (grids self') ! i' ! j' = capfloorVols (grids self) ! i' ! j' \<and>
                 capfloorPrices (grids self') ! i' ! j' = capfloorPrices (grids self) ! i' ! j' \<and>
                 optionletPrices (grids self') ! i' ! j' = optionletPrices (grids self) ! i' ! j' \<and>
                 optionletStDevs (grids self') ! i' ! j' = optionletStDevs (grids self) ! i' ! j' \<and>
                 optionletVols (grids self') ! i' ! j' = optionletVols (grids self) ! i' ! j')"
    using ij s(1) F ff A by blast
next
  assume h: "a < nOptionletTenors self \<and> b < nStrikes self \<and>
            blackFormulaImpliedStdDev env
              (if strikes (surface self) ! b < switchStrikes self ! a then Put else Call)
              (strikes (surface self) ! b)
              (forecastFixing (index self) (periodDate env self a))
              (cellPrice env self a b - previousPrice env self a b)
              (1 / 2 * discount env (cellInstrument self a b) (periodDate env self a))
              (optionletStDevs (grids self) ! a ! b) = Inl what"
  show "\<exists>e s. performCalculations env self = Inl (e, s)"
  proof (cases "performCalculations env self")
    case (Inl x)
    then show ?thesis by (cases x) simp
  next
    case (Inr s')
    from h have ab: "a < nOptionletTenors self" "b < nStrikes self" by simp_all
    note v = pass_Inr(3)[OF assms Inr]
    note f = stripped_facts[OF pass_Inr(4)[OF assms Inr ab] v period_loop_ready(2)[OF assms]]
    note p = period_facts[OF v period_loop_ready(3)[OF assms ab(1)]]
    from f(5) have "blackFormulaImpliedStdDev env
              (if strikes (surface self) ! b < switchStrikes self ! a then Put else Call)
              (strikes (surface self) ! b)
              (forecastFixing (index self) (periodDate env self a))
              (cellPrice env self a b - previousPrice env self a b)
              (1 / 2 * discount env (cellInstrument self a b) (periodDate env self a))
              (optionletStDevs (grids self) ! a ! b) = Inr (optionletStDevs (grids s') ! a ! b)"
      unfolding f(4) p(4) p(2) p(1) .
    with h show ?thesis by simp
  qed
qed


text \<open>
  C8, witness: the pass with the worthless nine-month floor fails at the second period of the
  first strike and leaves the second strike untouched.
\<close>

theorem inversion_failure_aborts_witness:
  "dims_ok small_stripper \<and>
   performCalculations bad_pricing small_stripper = Inl (bad_failure, bad_result) \<and>
   (\<exists>i j. i < nOptionletTenors small_stripper \<and> j < nStrikes small_stripper \<and>
      solverCall bad_pricing small_stripper (grids bad_result) i j
        (optionletStDevs (grids small_stripper) ! i ! j) = Inl (f_message bad_failure) \<and>
      f_date bad_failure = optionletDates (grids bad_result) ! i \<and>
      f_strike bad_failure = strikes (surface small_stripper) ! j \<and>
      f_price bad_failure = optionletPrices (grids bad_result) ! i ! j \<and>
      optionletStDevs (grids bad_result) ! i ! j = optionletStDevs (grids small_stripper) ! i ! j \<and>
      (\<forall>i' j'. visitedBefore i j i' j' \<longrightarrow>
         optionletPrices (grids bad_result) ! i' ! j' =
         optionletPrices (grids small_stripper) ! i' ! j')) \<and>
   (1::nat) < nOptionletTenors small_stripper \<and> (0::nat) < nStrikes small_stripper \<and>
   blackFormulaImpliedStdDev bad_pricing
     (if strikes (surface small_stripper) ! 0 < switchStrikes small_stripper ! 1 then Put else Call)
     (strikes (surface small_stripper) ! 0)
     (forecastFixing (index small_stripper) (periodDate bad_pricing small_stripper 1))
     (cellPrice bad_pricing small_stripper 1 0 - previousPrice bad_pricing small_stripper 1 0)
     (1 / 2 * discount bad_pricing (cellInstrument small_stripper 1 0)
                (periodDate bad_pricing small_stripper 1))
     (optionletStDevs (grids small_stripper) ! 1 ! 0) = Inl ''no solution'' \<and>
   (\<exists>e s. performCalculations bad_pricing small_stripper = Inl (e, s))"
proof -
  have h: "(1::nat) < nOptionletTenors small_stripper \<and> (0::nat) < nStrikes small_stripper \<and>
   blackFormulaImpliedStdDev bad_pricing
     (if strikes (surface small_stripper) ! 0 < switchStrikes small_stripper ! 1 then Put else Call)
     (strikes (surface small_stripper) ! 0)
     (forecastFixing (index small_stripper) (periodDate bad_pricing small_stripper 1))
     (cellPrice bad_pricing small_stripper 1 0 - previousPrice bad_pricing small_stripper 1 0)
     (1 / 2 * discount bad_pricing (cellInstrument small_stripper 1 0)
                (periodDate bad_pricing small_stripper 1))
     (optionletStDevs (grids small_stripper) ! 1 ! 0) = Inl ''no solution''"
    by (simp add: small_stripper_def small_surface_def ex_surface_def ex_index_def
        bad_pricing_def ex_pricing_def periodDate_def cellPrice_def previousPrice_def
        cellInstrument_def initialGrids_def Matrix_fill_def numeral_2_eq_2)
  note t = inversion_failure_aborts[OF small_dims, of bad_pricing bad_failure bad_result
      1 0 "''no solution''"]
  from t bad_pass have 1: "\<exists>i j. i < nOptionletTenors small_stripper \<and> j < nStrikes small_stripper \<and>
      solverCall bad_pricing small_stripper (grids bad_result) i j
        (optionletStDevs (grids small_stripper) ! i ! j) = Inl (f_message bad_failure) \<and>
      f_date bad_failure = optionletDates (grids bad_result) ! i \<and>
      f_strike bad_failure = strikes (surface small_stripper) ! j \<and>
      f_price bad_failure = optionletPrices (grids bad_result) ! i ! j \<and>
      optionletStDevs (grids bad_result) ! i ! j = optionletStDevs (grids small_stripper) ! i ! j \<and>
      (\<forall>i' j'. visitedBefore i j i' j' \<longrightarrow>
         optionletPrices (grids bad_result) ! i' ! j' =
         optionletPrices (grids small_stripper) ! i' ! j')"
    by blast
  from t h have 2: "\<exists>e s. performCalculations bad_pricing small_stripper = Inl (e, s)"
    by blast
  from small_dims bad_pass 1 h 2 show ?thesis by blast
qed

text \<open>
  C9. A constructed stripper has every standard deviation at the positive first guess 0.14.
  In a pass, the guess handed to the solver for a cell is the standard deviation the cell held
  when the pass began, and a pass that returns normally stores the solver's answer. In a pass
  that fails, the failing cell keeps its standard deviation, and every cell either keeps its
  standard deviation or holds the answer of a solver call that succeeded.
\<close>

theorem warm_start:
  "(newOptionletStripper surf idx given = Some (Inr obj) \<longrightarrow>
      dims_ok obj \<and> (0::real) < 14 / 100 \<and>
      (\<forall>i j. i < nOptionletTenors obj \<and> j < nStrikes obj \<longrightarrow>
         optionletStDevs (grids obj) ! i ! j = 14 / 100)) \<and>
   (dims_ok self \<and> performCalculations env self = Inr self' \<and>
    i < nOptionletTenors self \<and> j < nStrikes self \<longrightarrow>
      solverCall env self (grids self') i j (optionletStDevs (grids self) ! i ! j)
        = Inr (optionletStDevs (grids self') ! i ! j)) \<and>
   (dims_ok self \<and> performCalculations env self = Inl (f, self'') \<longrightarrow>
      (\<exists>a b. a < nOptionletTenors self \<and> b < nStrikes self \<and>
         solverCall env self (grids self'') a b (optionletStDevs (grids self) ! a ! b)
           = Inl (f_message f) \<and>
         optionletStDevs (grids self'') ! a ! b = optionletStDevs (grids self) ! a ! b \<and>
         (\<forall>a' b'. a' < nOptionletTenors self \<and> b' < nStrikes self \<longrightarrow>
            optionletStDevs (grids self'') ! a' ! b' = optionletStDevs (grids self) ! a' ! b' \<or>
            solverCall env self (grids self'') a' b' (optionletStDevs (grids self) ! a' ! b')
              = Inr (optionletStDevs (grids self'') ! a' ! b'))))"
proof (intro conjI impI)
  assume a: "newOptionletStripper surf idx given = Some (Inr obj)"
  show "dims_ok obj" by (rule dims_ok_new[OF a])
  show "(0::real) < 14 / 100" by simp
  show "\<forall>i j. i < nOptionletTenors obj \<and> j < nStrikes obj \<longrightarrow>
         optionletStDevs (grids obj) ! i ! j = 14 / 100"
    using new_Inr_fields(1,6,7)[OF a] by (simp add: initialGrids_def Matrix_fill_def)
next
  assume h: "dims_ok self \<and> performCalculations env self = Inr self' \<and>
    i < nOptionletTenors self \<and> j < nStrikes self"
  then have d: "dims_ok self" and p: "performCalculations env self = Inr self'"
    and ij: "i < nOptionletTenors self" "j < nStrikes self" by simp_all
  show "solverCall env self (grids self') i j (optionletStDevs (grids self) ! i ! j)
        = Inr (optionletStDevs (grids self') ! i ! j)"
    by (rule solverCall_stripped[OF pass_Inr(4)[OF d p ij] pass_Inr(3)[OF d p]
          period_loop_ready(2)[OF d]])
next
  assume h: "dims_ok self \<and> performCalculations env self = Inl (f, self'')"
  then have d: "dims_ok self" and p: "performCalculations env self = Inl (f, self'')"
    by simp_all
  note m = period_loop_ready(2)[OF d, of env]
  note v = pass_Inl(3)[OF d p]
  from pass_Inl(4)[OF d p] obtain a b where ab: "b < nStrikes self" "a < nOptionletTenors self"
    and fl: "failed env self (period_loop env self 0 (grids self)) (grids self'') f a b"
    and be: "\<forall>a' b'. a' < nOptionletTenors self \<and> visitedBefore a' b' a b \<longrightarrow>
        stripped env self (period_loop env self 0 (grids self)) (grids self'') a' b'"
    and af: "\<forall>a' b'. visitedBefore a b a' b' \<longrightarrow>
        cell (grids self'') a' b' = cell (period_loop env self 0 (grids self)) a' b'"
    by blast
  note s = solverCall_failed(1)[OF fl v m]
  note ff = failed_facts(7)[OF fl v m]
  have A: "optionletStDevs (grids self'') ! a' ! b' = optionletStDevs (grids self) ! a' ! b' \<or>
      solverCall env self (grids self'') a' b' (optionletStDevs (grids self) ! a' ! b')
        = Inr (optionletStDevs (grids self'') ! a' ! b')"
    if r: "a' < nOptionletTenors self \<and> b' < nStrikes self" for a' b'
  proof -
    consider "visitedBefore a' b' a b" | "a' = a \<and> b' = b" | "visitedBefore a b a' b'"
      using visited_cases by blast
    then show ?thesis
    proof cases
      case 1
      with be r have "stripped env self (period_loop env self 0 (grids self)) (grids self'') a' b'"
        by blast
      from solverCall_stripped[OF this v m] show ?thesis by simp
    next
      case 2
      with ff show ?thesis by simp
    next
      case 3
      with af have "cell (grids self'') a' b' = cell (period_loop env self 0 (grids self)) a' b'"
        by blast
      from untouched_facts(4)[OF this m] show ?thesis by simp
    qed
  qed
  show "\<exists>a b. a < nOptionletTenors self \<and> b < nStrikes self \<and>
         solverCall env self (grids self'') a b (optionletStDevs (grids self) ! a ! b)
           = Inl (f_message f) \<and>
         optionletStDevs (grids self'') ! a ! b = optionletStDevs (grids self) ! a ! b \<and>
         (\<forall>a' b'. a' < nOptionletTenors self \<and> b' < nStrikes self \<longrightarrow>
            optionletStDevs (grids self'') ! a' ! b' = optionletStDevs (grids self) ! a' ! b' \<or>
            solverCall env self (grids self'') a' b' (optionletStDevs (grids self) ! a' ! b')
              = Inr (optionletStDevs (grids self'') ! a' ! b'))"
    using ab s ff A by blast
qed

text \<open>
  C9, witness: construction of the two-period example, its pass, and the pass that fails.
\<close>

theorem warm_start_witness:
  "newOptionletStripper small_surface ex_index [] = Some (Inr small_stripper) \<and>
   optionletStDevs (grids small_stripper) ! 1 ! 1 = 14 / 100 \<and>
   dims_ok small_stripper \<and>
   performCalculations ex_pricing small_stripper = Inr small_result \<and>
   1 < nOptionletTenors small_stripper \<and> 1 < nStrikes small_stripper \<and>
   solverCall ex_pricing small_stripper (grids small_result) 1 1
       (optionletStDevs (grids small_stripper) ! 1 ! 1)
     = Inr (optionletStDevs (grids small_result) ! 1 ! 1) \<and>
   optionletStDevs (grids small_result) ! 1 ! 1 = 20 / 100 \<and>
   performCalculations bad_pricing small_stripper = Inl (bad_failure, bad_result) \<and>
   (\<exists>a b. a < nOptionletTenors small_stripper \<and> b < nStrikes small_stripper \<and>
      solverCall bad_pricing small_stripper (grids bad_result) a b
        (optionletStDevs (grids small_stripper) ! a ! b) = Inl (f_message bad_failure) \<and>
      optionletStDevs (grids bad_result) ! a ! b = optionletStDevs (grids small_stripper) ! a ! b)"
proof -
  have h: "1 < nOptionletTenors small_stripper" "1 < nStrikes small_stripper"
    by (simp_all add: small_stripper_def)
  note t = warm_start[of small_surface ex_index "[]" small_stripper small_stripper ex_pricing
      small_result 1 1]
  note u = warm_start[of small_surface ex_index "[]" small_stripper small_stripper bad_pricing
      small_result 1 1 bad_failure bad_result]
  from t small_new h have 1: "optionletStDevs (grids small_stripper) ! 1 ! 1 = 14 / 100"
    by blast
  from t small_dims small_pass h have 2:
    "solverCall ex_pricing small_stripper (grids small_result) 1 1
       (optionletStDevs (grids small_stripper) ! 1 ! 1)
     = Inr (optionletStDevs (grids small_result) ! 1 ! 1)"
    by blast
  have 3: "optionletStDevs (grids small_result) ! 1 ! 1 = 20 / 100"
    by (simp add: small_result_def)
  from u small_dims bad_pass have 4:
    "\<exists>a b. a < nOptionletTenors small_stripper \<and> b < nStrikes small_stripper \<and>
      solverCall bad_pricing small_stripper (grids bad_result) a b
        (optionletStDevs (grids small_stripper) ! a ! b) = Inl (f_message bad_failure) \<and>
      optionletStDevs (grids bad_result) ! a ! b = optionletStDevs (grids small_stripper) ! a ! b"
    by blast
  from small_new 1 small_dims small_pass h 2 3 bad_pass 4 show ?thesis by blast
qed

end
